theory Spec2Isabelle
  imports Main "HOL-Library.Word"
begin

unbundle bit_operations_syntax

section \<open>Go values: bytes, panics and errors\<close>

type_synonym u8 = "8 word"
type_synonym u16 = "16 word"
type_synonym u32 = "32 word"
type_synonym u64 = "64 word"

text \<open>
  A run-time panic of Go is an outcome of its own, next to a normal return.
  \<open>IndexOutOfRange i n\<close> is "index out of range [i] with length n".
\<close>

datatype panic = IndexOutOfRange nat nat | SliceOutOfRange nat nat | NilDereference

datatype 'a go = Panic panic | Return 'a

definition go_bind :: "'a go \<Rightarrow> ('a \<Rightarrow> 'b go) \<Rightarrow> 'b go" where
  "go_bind m f = (case m of Panic p \<Rightarrow> Panic p | Return x \<Rightarrow> f x)"

text \<open>\<open>bytes[i]\<close>: the runtime checks the index against the length.\<close>

definition index :: "u8 list \<Rightarrow> nat \<Rightarrow> u8 go" where
  "index bs i = (if i < length bs then Return (bs ! i) else Panic (IndexOutOfRange i (length bs)))"

text \<open>\<open>bytes[lo:hi]\<close> and \<open>bytes[lo:]\<close>.\<close>

definition slice :: "u8 list \<Rightarrow> nat \<Rightarrow> nat \<Rightarrow> u8 list go" where
  "slice bs lo hi =
     (if hi \<le> length bs \<and> lo \<le> hi then Return (take (hi - lo) (drop lo bs))
      else Panic (SliceOutOfRange hi (length bs)))"

definition slice_from :: "u8 list \<Rightarrow> nat \<Rightarrow> u8 list go" where
  "slice_from bs lo =
     (if lo \<le> length bs then Return (drop lo bs) else Panic (SliceOutOfRange lo (length bs)))"

text \<open>
  Error values. \<open>Wrapped msg e\<close> is \<open>fmt.Errorf(msg + ": %w", e)\<close>; \<open>EOF\<close> and
  \<open>ErrUnexpectedEOF\<close> are the two sentinels of package io; \<open>External\<close> is any other
  error of a collaborator; the remaining two are the errors this package creates.
\<close>

datatype error =
    EOF
  | ErrUnexpectedEOF
  | External string
  | InvalidPESLength nat
  | Overrun int nat
  | Wrapped string error

text \<open>\<open>errors.Is\<close>: the target is the error or is somewhere down its chain of wrapped errors.\<close>

fun errors_Is :: "error \<Rightarrow> error \<Rightarrow> bool" where
  "errors_Is (Wrapped msg e) target = (Wrapped msg e = target \<or> errors_Is e target)"
| "errors_Is e target = (e = target)"

section \<open>PES header\<close>

text \<open>stream_id possibilities (the ones \<open>optionalFieldsExist\<close> names).\<close>

definition STREAM_ID_PADDNG_STREAM :: u8 where "STREAM_ID_PADDNG_STREAM = 190"
definition STREAM_ID_PRIVATE_STREAM_2 :: u8 where "STREAM_ID_PRIVATE_STREAM_2 = 191"
definition STREAM_ID_ECM_STREAM :: u8 where "STREAM_ID_ECM_STREAM = 240"
definition STREAM_ID_EMM_STREAM :: u8 where "STREAM_ID_EMM_STREAM = 241"
definition STREAM_ID_DSM_CC_STREAM :: u8 where "STREAM_ID_DSM_CC_STREAM = 242"
definition STREAM_ID_ITU_T_H222_1_TYPE_E :: u8 where "STREAM_ID_ITU_T_H222_1_TYPE_E = 248"
definition STREAM_ID_PROGRAM_STREAM_DIRECTORY :: u8 where "STREAM_ID_PROGRAM_STREAM_DIRECTORY = 255"

record PESHeader =
  packetStartCodePrefix :: u32
  dataAlignment :: bool
  streamId :: u8
  pesPacketLength :: u16
  dataStartIndex :: int
  ptsDtsIndicator :: u8
  pts :: u64
  dts :: u64
  data :: "u8 list"

text \<open>\<open>new(PESHeader)\<close>: every field has its zero value, the slice is nil.\<close>

definition new_PESHeader :: PESHeader where
  "new_PESHeader =
     \<lparr>packetStartCodePrefix = 0, dataAlignment = False, streamId = 0, pesPacketLength = 0,
      dataStartIndex = 0, ptsDtsIndicator = 0, pts = 0, dts = 0, data = []\<rparr>"

text \<open>
  What this package takes from package gots, a dependency of the repository, is a
  parameter of the model: the two indicator constants and the timestamp extraction that
  \<open>NewPESHeader\<close> calls on the five bytes of a PTS or DTS, and the three operations on
  a transport packet (an array of 188 bytes) that the accumulator and the pipeline use.
  \<open>packet.PESHeader(pkt)\<close> and \<open>pkt.Payload()\<close> return bytes or an error.
\<close>

record gots =
  PTS_DTS_INDICATOR_NONE :: u8
  PTS_DTS_INDICATOR_BOTH :: u8
  gots_ExtractTime :: "u8 list \<Rightarrow> u64"
  packet_PESHeader :: "u8 list \<Rightarrow> error + u8 list"
  packet_Payload :: "u8 list \<Rightarrow> error + u8 list"
  packet_PID :: "u8 list \<Rightarrow> int"

text \<open>\<open>ExtractTime\<close> of this package: five indexed reads, then masks and shifts on uint64.\<close>

definition ExtractTime :: "u8 list \<Rightarrow> u64 go" where
  "ExtractTime bytes =
     go_bind (index bytes 0) (\<lambda>b0.
     go_bind (index bytes 1) (\<lambda>b1.
     go_bind (index bytes 2) (\<lambda>b2.
     go_bind (index bytes 3) (\<lambda>b3.
     go_bind (index bytes 4) (\<lambda>b4.
       let a = (ucast (drop_bit 1 b0 AND 0x07) :: u64);
           b = (ucast b1 :: u64);
           c = (ucast (drop_bit 1 b2 AND 0x7f) :: u64);
           d = (ucast b3 :: u64);
           e = (ucast (drop_bit 1 b4 AND 0x7f) :: u64)
       in Return (push_bit 30 a OR push_bit 22 b OR push_bit 15 c OR push_bit 7 d OR e))))))"

text \<open>\<open>CheckLength\<close>: the name is only a label.\<close>

definition CheckLength :: "u8 list \<Rightarrow> string \<Rightarrow> int \<Rightarrow> bool" where
  "CheckLength byteArray name min' = (if int (length byteArray) < min' then False else True)"

definition optionalFieldsExist :: "PESHeader \<Rightarrow> bool" where
  "optionalFieldsExist pes =
     (if streamId pes = STREAM_ID_PADDNG_STREAM \<or>
         streamId pes = STREAM_ID_PRIVATE_STREAM_2 \<or>
         streamId pes = STREAM_ID_ECM_STREAM \<or>
         streamId pes = STREAM_ID_EMM_STREAM \<or>
         streamId pes = STREAM_ID_DSM_CC_STREAM \<or>
         streamId pes = STREAM_ID_ITU_T_H222_1_TYPE_E \<or>
         streamId pes = STREAM_ID_PROGRAM_STREAM_DIRECTORY
      then False else True)"

text \<open>
  The body of the \<open>if\<close> of \<open>NewPESHeader\<close> that parses the optional fields: the
  indicator from byte 7 (in Go \<open>&\<close> and \<open>>>\<close> bind equally and to the left, so the mask
  comes first), the header length from byte 8, then PTS and DTS when announced and
  long enough.
\<close>

definition parse_optional_fields :: "gots \<Rightarrow> PESHeader \<Rightarrow> u8 list \<Rightarrow> PESHeader go" where
  "parse_optional_fields g pes pesBytes =
     go_bind (index pesBytes 7) (\<lambda>b7.
       let ptsDtsIndicator' = drop_bit 6 (b7 AND 0xc0) in
     go_bind (index pesBytes 8) (\<lambda>pesHeaderLength.
       let pes = pes\<lparr>dataStartIndex := 9 + int (unat pesHeaderLength)\<rparr>;
           pes = pes\<lparr>ptsDtsIndicator := ptsDtsIndicator'\<rparr>
       in if ptsDtsIndicator' \<noteq> PTS_DTS_INDICATOR_NONE g \<and> CheckLength pesBytes ''PTS'' 14
          then go_bind (slice pesBytes 9 14) (\<lambda>ptsBytes.
                 let pes = pes\<lparr>pts := gots_ExtractTime g ptsBytes\<rparr>
                 in if ptsDtsIndicator pes = PTS_DTS_INDICATOR_BOTH g \<and> CheckLength pesBytes ''DTS'' 19
                    then go_bind (slice pesBytes 14 19) (\<lambda>dtsBytes.
                           Return (pes\<lparr>dts := gots_ExtractTime g dtsBytes\<rparr>))
                    else Return pes)
          else Return pes))"

text \<open>
  \<open>NewPESHeader\<close> returns the header together with the error (nil or not); the header
  returned with an error is the zero header.
\<close>

definition NewPESHeader :: "gots \<Rightarrow> u8 list \<Rightarrow> (PESHeader \<times> error option) go" where
  "NewPESHeader g pesBytes =
     (let pes = new_PESHeader in
      if \<not> CheckLength pesBytes ''PES'' 6
      then Return (pes, Some (InvalidPESLength (length pesBytes)))
      else
        go_bind (index pesBytes 0) (\<lambda>b0.
        go_bind (index pesBytes 1) (\<lambda>b1.
        go_bind (index pesBytes 2) (\<lambda>b2.
          let pes = pes\<lparr>packetStartCodePrefix :=
                        push_bit 16 (ucast b0) OR push_bit 8 (ucast b1) OR ucast b2\<rparr> in
        go_bind (index pesBytes 3) (\<lambda>b3.
          let pes = pes\<lparr>streamId := b3\<rparr> in
        go_bind (index pesBytes 4) (\<lambda>b4.
        go_bind (index pesBytes 5) (\<lambda>b5.
          let pes = pes\<lparr>pesPacketLength := push_bit 8 (ucast b4) OR ucast b5\<rparr> in
        go_bind (index pesBytes 6) (\<lambda>b6.
          let pes = pes\<lparr>dataAlignment := (b6 AND 0x04 \<noteq> 0)\<rparr>;
              pes = pes\<lparr>dataStartIndex := 6\<rparr> in
        go_bind (if optionalFieldsExist pes \<and> CheckLength pesBytes ''Optional Fields'' 9
                 then parse_optional_fields g pes pesBytes else Return pes) (\<lambda>pes.
        go_bind (if int (length pesBytes) > dataStartIndex pes
                 then go_bind (slice_from pesBytes (nat (dataStartIndex pes)))
                        (\<lambda>d. Return (pes\<lparr>data := d\<rparr>))
                 else Return pes) (\<lambda>pes.
          Return (pes, None)))))))))))"

definition PESHeader_PTS :: "PESHeader \<Rightarrow> u64" where
  "PESHeader_PTS pes = pts pes"

definition PESHeader_DTS :: "PESHeader \<Rightarrow> u64" where
  "PESHeader_DTS pes = dts pes"

definition PESHeader_Data :: "PESHeader \<Rightarrow> u8 list" where
  "PESHeader_Data pes = data pes"

definition DataAligned :: "PESHeader \<Rightarrow> bool" where
  "DataAligned pes = dataAlignment pes"

text \<open>\<open>PacketSize\<close>: Go's int is 64 bits wide here and the operands are below \<open>2^16\<close>, so
  the subtraction is the one of the integers.\<close>

definition PacketSize :: "PESHeader \<Rightarrow> int" where
  "PacketSize pes = int (unat (pesPacketLength pes)) - (dataStartIndex pes - 6)"

section \<open>PES accumulator\<close>

record PESAccumulator =
  PESHeader :: "PESHeader option"
  packetSize :: int
  Data :: "u8 list"

text \<open>\<open>&PESAccumulator{}\<close>: no header yet, size 0, no data.\<close>

definition new_PESAccumulator :: PESAccumulator where
  "new_PESAccumulator = \<lparr>PESHeader = None, packetSize = 0, Data = []\<rparr>"

text \<open>
  \<open>checkDone\<close> compares the buffer with the field \<open>packetSize\<close> for the overrun and
  with the header's \<open>PacketSize()\<close> for completion; the latter dereferences the header.
\<close>

definition checkDone :: "PESAccumulator \<Rightarrow> (bool \<times> error option) go" where
  "checkDone pa =
     (if int (length (Data pa)) > packetSize pa
      then Return (True, Some (Overrun (packetSize pa) (length (Data pa))))
      else (case PESHeader pa of
              None \<Rightarrow> Panic NilDereference
            | Some h \<Rightarrow> Return (int (length (Data pa)) = PacketSize h, None)))"

text \<open>
  \<open>Write\<close> mutates the accumulator, so the model returns the accumulator after the
  call with the pair (done, err). The header that \<open>NewPESHeader\<close> returns is stored
  before its error is looked at.
\<close>

definition Write :: "gots \<Rightarrow> PESAccumulator \<Rightarrow> u8 list \<Rightarrow> (PESAccumulator \<times> bool \<times> error option) go" where
  "Write g pa pkt =
     (case PESHeader pa of
        None \<Rightarrow>
          (case packet_PESHeader g pkt of
             Inl err \<Rightarrow>
               Return (pa, False, Some (Wrapped ''first packet must contain a PES Header'' err))
           | Inr pesBytes \<Rightarrow>
               go_bind (NewPESHeader g pesBytes) (\<lambda>(pes, err).
                 let pa = pa\<lparr>PESHeader := Some pes\<rparr> in
                 (case err of
                    Some e \<Rightarrow> Return (pa, False, Some (Wrapped ''failed PES parse'' e))
                  | None \<Rightarrow>
                      let pa = pa\<lparr>Data := PESHeader_Data pes\<rparr>;
                          pa = pa\<lparr>packetSize := PacketSize pes\<rparr>
                      in go_bind (checkDone pa) (\<lambda>(done, err). Return (pa, done, err)))))
      | Some h \<Rightarrow>
          (case packet_Payload g pkt of
             Inl err \<Rightarrow> Return (pa, False, Some (Wrapped ''failed getting payload'' err))
           | Inr payload \<Rightarrow>
               let pa = pa\<lparr>Data := Data pa @ payload\<rparr>
               in go_bind (checkDone pa) (\<lambda>(done, err). Return (pa, done, err))))"

section \<open>Metadata values\<close>

record Value =
  Prefix :: string
  Value :: string

text \<open>
  \<open>strings.Split(v, sep)\<close> of the Go library for a separator of one byte: the
  segments between the occurrences of the separator, one more than there are occurrences.
\<close>

fun strings_Split :: "string \<Rightarrow> char \<Rightarrow> string list" where
  "strings_Split [] sep = [[]]"
| "strings_Split (c # cs) sep =
     (if c = sep then [] # strings_Split cs sep
      else (case strings_Split cs sep of
              [] \<Rightarrow> [[c]]
            | seg # segs \<Rightarrow> (c # seg) # segs))"

definition NUL :: char where
  "NUL = CHR 0x00"

definition parseValue :: "string \<Rightarrow> Value" where
  "parseValue v =
     (let split = strings_Split v NUL in
      if length split = 2 then \<lparr>Prefix = split ! 0, Value = split ! 1\<rparr>
      else \<lparr>Prefix = [], Value = v\<rparr>)"

section \<open>Extraction pipeline\<close>

record MetaInfo =
  PTS :: u64
  MetaData :: "string \<rightharpoonup> Value"

record MetaOptional =
  Error :: "error option"
  MetaInfo :: "MetaInfo option"

text \<open>
  The input: the bytes the reader still delivers and the error it returns once they
  are used up (\<open>EOF\<close> for a file that ends).
\<close>

record reader =
  remaining :: "u8 list"
  terminal :: error

text \<open>
  \<open>io.ReadFull(r, buf)\<close> of the Go library, for a buffer of n bytes: the n bytes, or
  the reader's error; an \<open>EOF\<close> after some but not all bytes is \<open>ErrUnexpectedEOF\<close>.
\<close>

definition io_ReadFull :: "reader \<Rightarrow> nat \<Rightarrow> (error + u8 list) \<times> reader" where
  "io_ReadFull r n =
     (if n \<le> length (remaining r)
      then (Inr (take n (remaining r)), r\<lparr>remaining := drop n (remaining r)\<rparr>)
      else (Inl (if remaining r \<noteq> [] \<and> terminal r = EOF then ErrUnexpectedEOF else terminal r),
            r\<lparr>remaining := []\<rparr>))"

text \<open>
  The other collaborators: the ID3 decoder of package easyid3, from the payload to the
  tags or an error, and the search for the metadata stream, which \<open>getStreamPID\<close> does
  through package psi: its result and what it leaves of the input.
\<close>

record deps =
  easyid3_ReadID3 :: "u8 list \<Rightarrow> error + (string \<rightharpoonup> string)"
  getStreamPID :: "reader \<Rightarrow> (error + int) \<times> reader"

definition parseID3 :: "deps \<Rightarrow> PESAccumulator \<Rightarrow> (error + MetaInfo) go" where
  "parseID3 d pesAccumulator =
     (case easyid3_ReadID3 d (Data pesAccumulator) of
        Inl err \<Rightarrow> Return (Inl (Wrapped ''failed ID3 parse'' err))
      | Inr tags \<Rightarrow>
          (case PESHeader pesAccumulator of
             None \<Rightarrow> Panic NilDereference
           | Some h \<Rightarrow>
               Return (Inr \<lparr>PTS = PESHeader_PTS h,
                            MetaData = (\<lambda>tag. map_option parseValue (tags tag))\<rparr>)))"

text \<open>
  The channel is modelled by what is sent on it, in order. \<open>errInfoChan\<close> sends the
  error and closes the channel.
\<close>

definition errInfoChan :: "error \<Rightarrow> MetaOptional list" where
  "errInfoChan err = [\<lparr>Error = Some err, MetaInfo = None\<rparr>]"

text \<open>
  One iteration of the loop of \<open>readPacketStream\<close> after a packet was read: what it
  sends, and the accumulator for the next iteration, or \<open>None\<close> when it returns.
\<close>

definition loop_body ::
  "gots \<Rightarrow> deps \<Rightarrow> int \<Rightarrow> PESAccumulator \<Rightarrow> u8 list \<Rightarrow> (MetaOptional list \<times> PESAccumulator option) go" where
  "loop_body g d metadataPID pesAccumulator pkt =
     (if packet_PID g pkt = metadataPID
      then go_bind (Write g pesAccumulator pkt) (\<lambda>(pa, done, err).
             (case err of
                Some e \<Rightarrow> Return (errInfoChan (Wrapped ''failed accumulation, bailing'' e), None)
              | None \<Rightarrow>
                  if done
                  then go_bind (parseID3 d pa) (\<lambda>res.
                         (case res of
                            Inl e \<Rightarrow> Return (errInfoChan e, None)
                          | Inr mi \<Rightarrow>
                              Return ([\<lparr>Error = None, MetaInfo = Some mi\<rparr>],
                                      Some new_PESAccumulator)))
                  else Return ([], Some pa)))
      else Return ([], Some pesAccumulator))"

function readPacketStream_loop ::
  "gots \<Rightarrow> deps \<Rightarrow> reader \<Rightarrow> int \<Rightarrow> PESAccumulator \<Rightarrow> MetaOptional list go" where
  "readPacketStream_loop g d r metadataPID pesAccumulator =
     (case io_ReadFull r 188 of
        (Inl err, r') \<Rightarrow>
          if errors_Is err EOF \<or> errors_Is err ErrUnexpectedEOF
          then Return (errInfoChan EOF)
          else Return (errInfoChan (Wrapped ''failed packet read'' err))
      | (Inr pkt, r') \<Rightarrow>
          (case loop_body g d metadataPID pesAccumulator pkt of
             Panic p \<Rightarrow> Panic p
           | Return (sent, None) \<Rightarrow> Return sent
           | Return (sent, Some pa) \<Rightarrow>
               (case readPacketStream_loop g d r' metadataPID pa of
                  Panic p \<Rightarrow> Panic p
                | Return rest \<Rightarrow> Return (sent @ rest))))"
  by pat_completeness auto
termination
  by (relation "measure (\<lambda>(g, d, r, metadataPID, pesAccumulator). length (remaining r))")
     (auto simp: io_ReadFull_def split: if_splits)

definition readPacketStream :: "gots \<Rightarrow> deps \<Rightarrow> reader \<Rightarrow> int \<Rightarrow> MetaOptional list go" where
  "readPacketStream g d r metadataPID = readPacketStream_loop g d r metadataPID new_PESAccumulator"

definition ReadStream :: "gots \<Rightarrow> deps \<Rightarrow> reader \<Rightarrow> MetaOptional list go" where
  "ReadStream g d r =
     (case getStreamPID d r of
        (Inl err, r') \<Rightarrow> Return (errInfoChan err)
      | (Inr metadataPID, r') \<Rightarrow> readPacketStream g d r' metadataPID)"

text \<open>The loop of \<open>Read\<close> over the channel.\<close>

fun Read_range :: "MetaInfo option list \<Rightarrow> MetaOptional list \<Rightarrow> MetaInfo option list \<times> error option" where
  "Read_range meta [] = (meta, None)"
| "Read_range meta (mo # infoChan) =
     (case Error mo of
        Some e \<Rightarrow> if errors_Is e EOF then (meta, None) else (meta, Some e)
      | None \<Rightarrow> Read_range (meta @ [MetaInfo mo]) infoChan)"

definition Read :: "gots \<Rightarrow> deps \<Rightarrow> reader \<Rightarrow> (MetaInfo option list \<times> error option) go" where
  "Read g d r = go_bind (ReadStream g d r) (\<lambda>infoChan. Return (Read_range [] infoChan))"

section \<open>Auxiliary definitions\<close>

text \<open>
  The header of \<open>NewPESHeader\<close> when the fixed fields and the data alignment flag are
  read, before the optional fields are looked at (on seven bytes or more).
\<close>

definition fixed_part :: "u8 list \<Rightarrow> PESHeader" where
  "fixed_part pesBytes =
     new_PESHeader\<lparr>packetStartCodePrefix :=
                     push_bit 16 (ucast (pesBytes ! 0)) OR push_bit 8 (ucast (pesBytes ! 1)) OR
                     ucast (pesBytes ! 2),
                   streamId := pesBytes ! 3,
                   pesPacketLength := push_bit 8 (ucast (pesBytes ! 4)) OR ucast (pesBytes ! 5),
                   dataAlignment := (pesBytes ! 6 AND 0x04 \<noteq> 0),
                   dataStartIndex := 6\<rparr>"

text \<open>The error of \<open>checkDone\<close>: "overrun; expected ... got ...".\<close>

definition is_overrun :: "error option \<Rightarrow> bool" where
  "is_overrun err = (case err of Some (Overrun expected got) \<Rightarrow> True | _ \<Rightarrow> False)"

text \<open>
  The life of one accumulator as the pipeline drives it: it is written to packet by
  packet until a call reports done or an error, and not after. \<open>feed\<close> lists what the
  calls returned.
\<close>

fun feed :: "gots \<Rightarrow> PESAccumulator \<Rightarrow> u8 list list \<Rightarrow> (PESAccumulator \<times> bool \<times> error option) go list" where
  "feed g pa [] = []"
| "feed g pa (pkt # pkts) =
     (case Write g pa pkt of
        Panic p \<Rightarrow> [Panic p]
      | Return (pa', done, err) \<Rightarrow>
          Return (pa', done, err) # (if done \<or> err \<noteq> None then [] else feed g pa' pkts))"

text \<open>
  The iterations of the loop of \<open>readPacketStream\<close> on packets that were read in full:
  what they send, and the accumulator the loop holds afterwards, or \<open>None\<close> when one
  of them returned.
\<close>

fun run_packets ::
  "gots \<Rightarrow> deps \<Rightarrow> int \<Rightarrow> PESAccumulator \<Rightarrow> u8 list list \<Rightarrow> (MetaOptional list \<times> PESAccumulator option) go" where
  "run_packets g d metadataPID pa [] = Return ([], Some pa)"
| "run_packets g d metadataPID pa (pkt # pkts) =
     (case loop_body g d metadataPID pa pkt of
        Panic p \<Rightarrow> Panic p
      | Return (sent, None) \<Rightarrow> Return (sent, None)
      | Return (sent, Some pa') \<Rightarrow>
          (case run_packets g d metadataPID pa' pkts of
             Panic p \<Rightarrow> Panic p
           | Return (rest, st) \<Rightarrow> Return (sent @ rest, st)))"

section \<open>A concrete library\<close>

text \<open>
  A concrete library, to run the model on concrete inputs: the indicator values of the
  header layout (\<open>11\<close> for both, \<open>00\<close> for none), this package's \<open>ExtractTime\<close>, and a
  transport packet read as four header bytes (the PID in the low 13 bits of bytes 1 and
  2) followed by the payload. The decoder finds one tag in any payload, and the metadata
  stream has PID 256.
\<close>

definition example_gots :: gots where
  "example_gots =
     \<lparr>PTS_DTS_INDICATOR_NONE = 0,
      PTS_DTS_INDICATOR_BOTH = 3,
      gots_ExtractTime = (\<lambda>bs. case ExtractTime bs of Return t \<Rightarrow> t | Panic p \<Rightarrow> 0),
      packet_PESHeader = (\<lambda>pkt. Inr (drop 4 pkt)),
      packet_Payload = (\<lambda>pkt. Inr (drop 4 pkt)),
      packet_PID = (\<lambda>pkt. int (unat (pkt ! 1 AND 0x1f)) * 256 + int (unat (pkt ! 2)))\<rparr>"

definition example_deps :: deps where
  "example_deps =
     \<lparr>easyid3_ReadID3 = (\<lambda>bs. Inr [''TXXX'' \<mapsto> ''PFX'' @ NUL # ''payload'']),
      getStreamPID = (\<lambda>r. (Inr 256, r))\<rparr>"

text \<open>
  A transport packet for that library: PID 256, a PES header with a PTS of 90000 (five
  bytes of optional header) and 170 bytes of payload, which is the size it declares.
\<close>

definition example_packet :: "u8 list" where
  "example_packet =
     [0x47, 0x41, 0x00, 0x10] @
     [0x00, 0x00, 0x01, 0xBD, 0x00, 0xB2, 0x80, 0x80, 0x05, 0x21, 0x00, 0x05, 0xBF, 0x21] @
     replicate 170 0x49"

declare readPacketStream_loop.simps [simp del]

section \<open>Properties: reading bytes\<close>

lemma index_in_range: "i < length bs \<Longrightarrow> index bs i = Return (bs ! i)"
  by (simp add: index_def)

lemma go_bind_Return: "go_bind (Return x) f = f x"
  by (simp add: go_bind_def)

lemma go_bind_Panic: "go_bind (Panic p) f = Panic p"
  by (simp add: go_bind_def)

lemma CheckLength_iff: "CheckLength bs name n = (n \<le> int (length bs))"
  by (auto simp: CheckLength_def)

section \<open>Properties: ExtractTime\<close>

lemma unat_u8_less: "unat (x::u8) < 256"
  using unsigned_less [of x, where 'a = nat] by simp

lemma unat_ucast_u8_u64: "unat (ucast (x::u8) :: u64) = unat x"
  using unat_u8_less [of x] by (simp add: unsigned_ucast_eq take_bit_nat_eq_self)

lemma and_7_take_bit: "(w::u8) AND 7 = take_bit 3 w"
  by (simp add: take_bit_eq_mask mask_eq_exp_minus_1)

lemma and_127_take_bit: "(w::u8) AND 127 = take_bit 7 w"
  by (simp add: take_bit_eq_mask mask_eq_exp_minus_1)

lemma unat_shift_mask_3: "unat (drop_bit 1 (x::u8) AND 7) = unat x div 2 mod 8"
proof -
  have "unat (take_bit 3 (drop_bit 1 x)) = take_bit 3 (drop_bit 1 (unat x))"
    by (simp only: unsigned_take_bit_eq unat_drop_bit_eq)
  then show ?thesis
    by (simp only: and_7_take_bit) (simp add: take_bit_eq_mod drop_bit_eq_div)
qed

lemma unat_shift_mask_7: "unat (drop_bit 1 (x::u8) AND 127) = unat x div 2 mod 128"
proof -
  have "unat (take_bit 7 (drop_bit 1 x)) = take_bit 7 (drop_bit 1 (unat x))"
    by (simp only: unsigned_take_bit_eq unat_drop_bit_eq)
  then show ?thesis
    by (simp only: and_127_take_bit) (simp add: take_bit_eq_mod drop_bit_eq_div)
qed

lemma unat_push_bit_u64:
  assumes "unat (w::u64) * 2 ^ n < 2 ^ 64"
  shows "unat (push_bit n w) = push_bit n (unat w)"
proof -
  have "unat (push_bit n w) = take_bit 64 (push_bit n (unat w))"
    by (simp only: unsigned_push_bit_eq) simp
  also have "\<dots> = push_bit n (unat w)"
    using assms by (intro take_bit_nat_eq_self) (simp only: push_bit_eq_mult)
  finally show ?thesis .
qed

text \<open>A field shifted above a value that fits below it: the OR is the sum.\<close>

lemma or_below_is_add:
  fixes x y :: nat
  assumes y: "y < 2 ^ n"
  shows "push_bit n x OR y = x * 2 ^ n + y"
proof -
  have "push_bit n x + y = push_bit n x OR y"
  proof (rule disjunctive_add)
    fix k
    show "\<not> bit (push_bit n x) k \<or> \<not> bit y k"
    proof (cases "k < n")
      case True
      then show ?thesis by (simp add: bit_push_bit_iff)
    next
      case False
      then have "2 ^ n \<le> (2::nat) ^ k" by simp
      with y have "y < 2 ^ k" by linarith
      then have "\<not> bit y k" by (simp add: bit_iff_odd)
      then show ?thesis by simp
    qed
  qed
  then show ?thesis by (simp add: push_bit_eq_mult)
qed

lemma pack_33_bits:
  fixes a b c d e :: nat
  assumes "a < 8" "b < 256" "c < 128" "d < 256" "e < 128"
  shows "push_bit 30 a OR push_bit 22 b OR push_bit 15 c OR push_bit 7 d OR e
           = a * 2 ^ 30 + b * 2 ^ 22 + c * 2 ^ 15 + d * 2 ^ 7 + e"
proof -
  have e: "e < 2 ^ 7" using assms by simp
  have 1: "push_bit 7 d OR e = d * 2 ^ 7 + e"
    by (rule or_below_is_add [OF e])
  have b1: "d * 2 ^ 7 + e < 2 ^ 15" using assms by simp
  have 2: "push_bit 15 c OR (d * 2 ^ 7 + e) = c * 2 ^ 15 + (d * 2 ^ 7 + e)"
    by (rule or_below_is_add [OF b1])
  have b2: "c * 2 ^ 15 + (d * 2 ^ 7 + e) < 2 ^ 22" using assms by simp
  have 3: "push_bit 22 b OR (c * 2 ^ 15 + (d * 2 ^ 7 + e))
             = b * 2 ^ 22 + (c * 2 ^ 15 + (d * 2 ^ 7 + e))"
    by (rule or_below_is_add [OF b2])
  have b3: "b * 2 ^ 22 + (c * 2 ^ 15 + (d * 2 ^ 7 + e)) < 2 ^ 30" using assms by simp
  have 4: "push_bit 30 a OR (b * 2 ^ 22 + (c * 2 ^ 15 + (d * 2 ^ 7 + e)))
             = a * 2 ^ 30 + (b * 2 ^ 22 + (c * 2 ^ 15 + (d * 2 ^ 7 + e)))"
    by (rule or_below_is_add [OF b3])
  show ?thesis
    by (simp only: 1 2 3 4 add.assoc)
qed

lemma unat_pack_33_bits:
  fixes A B C D E :: u64
  assumes "unat A < 8" "unat B < 256" "unat C < 128" "unat D < 256" "unat E < 128"
  shows "unat (push_bit 30 A OR push_bit 22 B OR push_bit 15 C OR push_bit 7 D OR E)
           = unat A * 2 ^ 30 + unat B * 2 ^ 22 + unat C * 2 ^ 15 + unat D * 2 ^ 7 + unat E"
proof -
  have pa: "unat (push_bit 30 A) = push_bit 30 (unat A)"
    using assms(1) by (intro unat_push_bit_u64) simp
  have pb: "unat (push_bit 22 B) = push_bit 22 (unat B)"
    using assms(2) by (intro unat_push_bit_u64) simp
  have pc: "unat (push_bit 15 C) = push_bit 15 (unat C)"
    using assms(3) by (intro unat_push_bit_u64) simp
  have pd: "unat (push_bit 7 D) = push_bit 7 (unat D)"
    using assms(4) by (intro unat_push_bit_u64) simp
  show ?thesis
    by (simp only: unsigned_or_eq pa pb pc pd pack_33_bits [OF assms])
qed

text \<open>
  C1. On a buffer of five bytes \<open>ExtractTime\<close> returns
  \<open>(a<<30)|(b<<22)|(c<<15)|(d<<7)|e\<close> with \<open>a = (bytes[0]>>1)&0x07\<close>, \<open>b = bytes[1]\<close>,
  \<open>c = (bytes[2]>>1)&0x7f\<close>, \<open>d = bytes[3]\<close> and \<open>e = (bytes[4]>>1)&0x7f\<close>. The five
  fields do not overlap, so the value is the sum of the shifted fields, and it has 33 bits.
\<close>

theorem ExtractTime_bit_layout:
  assumes "length bytes = 5"
  shows "\<exists>t. ExtractTime bytes = Return t \<and>
           t = push_bit 30 (ucast (drop_bit 1 (bytes ! 0) AND 0x07)) OR
               push_bit 22 (ucast (bytes ! 1)) OR
               push_bit 15 (ucast (drop_bit 1 (bytes ! 2) AND 0x7f)) OR
               push_bit 7 (ucast (bytes ! 3)) OR
               ucast (drop_bit 1 (bytes ! 4) AND 0x7f) \<and>
           unat t = (unat (bytes ! 0) div 2 mod 8) * 2 ^ 30 + unat (bytes ! 1) * 2 ^ 22 +
                    (unat (bytes ! 2) div 2 mod 128) * 2 ^ 15 + unat (bytes ! 3) * 2 ^ 7 +
                    unat (bytes ! 4) div 2 mod 128 \<and>
           unat t < 2 ^ 33"
proof -
  let ?A = "ucast (drop_bit 1 (bytes ! 0) AND 0x07) :: u64"
  let ?B = "ucast (bytes ! 1) :: u64"
  let ?C = "ucast (drop_bit 1 (bytes ! 2) AND 0x7f) :: u64"
  let ?D = "ucast (bytes ! 3) :: u64"
  let ?E = "ucast (drop_bit 1 (bytes ! 4) AND 0x7f) :: u64"
  let ?t = "push_bit 30 ?A OR push_bit 22 ?B OR push_bit 15 ?C OR push_bit 7 ?D OR ?E"
  have run: "ExtractTime bytes = Return ?t"
    using assms by (simp add: ExtractTime_def index_in_range go_bind_Return Let_def)
  have A: "unat ?A = unat (bytes ! 0) div 2 mod 8"
    by (simp only: unat_ucast_u8_u64 unat_shift_mask_3)
  have B: "unat ?B = unat (bytes ! 1)"
    by (simp only: unat_ucast_u8_u64)
  have C: "unat ?C = unat (bytes ! 2) div 2 mod 128"
    by (simp only: unat_ucast_u8_u64 unat_shift_mask_7)
  have D: "unat ?D = unat (bytes ! 3)"
    by (simp only: unat_ucast_u8_u64)
  have E: "unat ?E = unat (bytes ! 4) div 2 mod 128"
    by (simp only: unat_ucast_u8_u64 unat_shift_mask_7)
  have bounds: "unat ?A < 8" "unat ?B < 256" "unat ?C < 128" "unat ?D < 256" "unat ?E < 128"
    using unat_u8_less [of "bytes ! 1"] unat_u8_less [of "bytes ! 3"]
    by (simp_all only: A B C D E)
  have val: "unat ?t = unat ?A * 2 ^ 30 + unat ?B * 2 ^ 22 + unat ?C * 2 ^ 15 + unat ?D * 2 ^ 7 + unat ?E"
    by (rule unat_pack_33_bits [OF bounds])
  have small: "unat ?t < 2 ^ 33"
    using bounds by (simp only: val) simp
  show ?thesis
    using run val small by (simp only: A B C D E) simp
qed

theorem ExtractTime_bit_layout_witness:
  "length [0x21, 0x00, 0x05, 0xBF, 0x21 :: u8] = 5 \<and>
   ExtractTime [0x21, 0x00, 0x05, 0xBF, 0x21] = Return 90000"
  using ExtractTime_bit_layout [of "[0x21, 0x00, 0x05, 0xBF, 0x21]"]
  by (simp add: ExtractTime_def index_def go_bind_def)

section \<open>Properties: NewPESHeader\<close>

lemma slice_in_range: "hi \<le> length bs \<Longrightarrow> lo \<le> hi \<Longrightarrow> slice bs lo hi = Return (take (hi - lo) (drop lo bs))"
  by (simp add: slice_def)

lemma slice_from_in_range: "lo \<le> length bs \<Longrightarrow> slice_from bs lo = Return (drop lo bs)"
  by (simp add: slice_from_def)

lemma if_Return: "(if c then Return a else Return b) = Return (if c then a else b)"
  by simp

text \<open>The optional fields never panic on nine bytes or more.\<close>

lemma parse_optional_fields_returns:
  assumes "9 \<le> length pesBytes"
  shows "\<exists>pes'. parse_optional_fields g pes pesBytes = Return pes' \<and>
           dataStartIndex pes' = 9 + int (unat (pesBytes ! 8)) \<and>
           dataAlignment pes' = dataAlignment pes \<and>
           streamId pes' = streamId pes \<and>
           pesPacketLength pes' = pesPacketLength pes"
  using assms
  by (simp add: parse_optional_fields_def index_in_range go_bind_Return Let_def
      CheckLength_iff slice_in_range)

lemma NewPESHeader_too_short:
  assumes "length pesBytes < 6"
  shows "NewPESHeader g pesBytes = Return (new_PESHeader, Some (InvalidPESLength (length pesBytes)))"
  using assms by (simp add: NewPESHeader_def CheckLength_iff)

lemma NewPESHeader_six_bytes:
  assumes "length pesBytes = 6"
  shows "NewPESHeader g pesBytes = Panic (IndexOutOfRange 6 6)"
  using assms by (simp add: NewPESHeader_def CheckLength_iff index_def go_bind_def)

lemma NewPESHeader_seven_or_more:
  assumes "7 \<le> length pesBytes"
  shows "NewPESHeader g pesBytes =
           go_bind (if optionalFieldsExist (fixed_part pesBytes) \<and> 9 \<le> length pesBytes
                    then parse_optional_fields g (fixed_part pesBytes) pesBytes
                    else Return (fixed_part pesBytes))
             (\<lambda>pes. Return (if int (length pesBytes) > dataStartIndex pes
                             then pes\<lparr>data := drop (nat (dataStartIndex pes)) pesBytes\<rparr>
                             else pes, None))"
proof -
  have slice: "\<And>pes. int (length pesBytes) > dataStartIndex pes \<Longrightarrow>
          slice_from pesBytes (nat (dataStartIndex pes)) = Return (drop (nat (dataStartIndex pes)) pesBytes)"
    by (rule slice_from_in_range) simp
  have idx: "index pesBytes 0 = Return (pesBytes ! 0)" "index pesBytes 1 = Return (pesBytes ! 1)"
    "index pesBytes 2 = Return (pesBytes ! 2)" "index pesBytes 3 = Return (pesBytes ! 3)"
    "index pesBytes 4 = Return (pesBytes ! 4)" "index pesBytes 5 = Return (pesBytes ! 5)"
    "index pesBytes 6 = Return (pesBytes ! 6)"
    using assms by (auto simp: index_def)
  have len: "CheckLength pesBytes ''PES'' 6"
    using assms by (simp add: CheckLength_iff)
  show ?thesis
    unfolding NewPESHeader_def
    by (simp only: len idx go_bind_Return Let_def fixed_part_def [symmetric] CheckLength_iff)
       (use assms in \<open>simp add: slice go_bind_Return if_Return cong: if_cong\<close>)
qed


lemma data_fixed_part: "data (fixed_part pesBytes) = []"
  by (simp add: fixed_part_def new_PESHeader_def)

lemma parse_optional_fields_data:
  assumes "parse_optional_fields g pes pesBytes = Return pes'"
  shows "data pes' = data pes"
  using assms
  by (auto simp: parse_optional_fields_def go_bind_def Let_def
      split: go.splits if_splits)

text \<open>What a header parsed without error looks like.\<close>

lemma NewPESHeader_returns:
  assumes "7 \<le> length pesBytes"
  shows "\<exists>h. NewPESHeader g pesBytes = Return (h, None) \<and>
           streamId h = pesBytes ! 3 \<and>
           dataAlignment h = (pesBytes ! 6 AND 0x04 \<noteq> 0) \<and>
           pesPacketLength h = push_bit 8 (ucast (pesBytes ! 4)) OR ucast (pesBytes ! 5) \<and>
           dataStartIndex h =
             (if optionalFieldsExist (fixed_part pesBytes) \<and> 9 \<le> length pesBytes
              then 9 + int (unat (pesBytes ! 8)) else 6) \<and>
           data h = (if int (length pesBytes) > dataStartIndex h
                     then drop (nat (dataStartIndex h)) pesBytes else [])"
proof (cases "optionalFieldsExist (fixed_part pesBytes) \<and> 9 \<le> length pesBytes")
  case True
  then obtain pes' where p: "parse_optional_fields g (fixed_part pesBytes) pesBytes = Return pes'"
    "dataStartIndex pes' = 9 + int (unat (pesBytes ! 8))"
    "dataAlignment pes' = dataAlignment (fixed_part pesBytes)"
    "streamId pes' = streamId (fixed_part pesBytes)"
    "pesPacketLength pes' = pesPacketLength (fixed_part pesBytes)"
    using parse_optional_fields_returns [of pesBytes g "fixed_part pesBytes"] by blast
  have d: "data pes' = []"
    using parse_optional_fields_data [OF p(1)] by (simp add: data_fixed_part)
  show ?thesis
    using True p d
    by (simp add: NewPESHeader_seven_or_more [OF assms] go_bind_Return fixed_part_def)
next
  case False
  then show ?thesis
    by (auto simp: NewPESHeader_seven_or_more [OF assms] go_bind_Return fixed_part_def
        new_PESHeader_def)
qed

lemma NewPESHeader_success_length:
  assumes "NewPESHeader g pesBytes = Return (h, None)"
  shows "7 \<le> length pesBytes"
proof (rule ccontr)
  assume "\<not> 7 \<le> length pesBytes"
  then have "length pesBytes < 6 \<or> length pesBytes = 6" by arith
  then show False
    using assms NewPESHeader_too_short [of pesBytes g] NewPESHeader_six_bytes [of pesBytes g]
    by auto
qed

lemma NewPESHeader_dataStartIndex:
  assumes "NewPESHeader g pesBytes = Return (h, None)"
  shows "dataStartIndex h = 6 \<or> 9 \<le> dataStartIndex h"
  using NewPESHeader_returns [OF NewPESHeader_success_length [OF assms], of g] assms
  by (auto split: if_splits)

text \<open>
  C9. On fewer than six bytes \<open>NewPESHeader\<close> returns the length error (with the zero
  header, as the Go function returns a header in every case).
\<close>

theorem NewPESHeader_short_is_error:
  assumes "length pesBytes < 6"
  shows "NewPESHeader g pesBytes =
           Return (new_PESHeader, Some (InvalidPESLength (length pesBytes)))"
  using assms by (rule NewPESHeader_too_short)

theorem NewPESHeader_short_is_error_witness:
  "length [0x00, 0x00, 0x01, 0xBD, 0x00 :: u8] < 6 \<and>
   NewPESHeader example_gots [0x00, 0x00, 0x01, 0xBD, 0x00] =
     Return (new_PESHeader, Some (InvalidPESLength 5))"
  using NewPESHeader_short_is_error [of "[0x00, 0x00, 0x01, 0xBD, 0x00]" example_gots]
  by simp

text \<open>
  C5. The claim is that a buffer of six bytes or more is read in bounds. The length
  check admits six bytes and the data alignment flag is then read at index 6: on a
  buffer of exactly six bytes \<open>NewPESHeader\<close> panics with an index out of range.
\<close>

theorem NewPESHeader_six_bytes_out_of_bounds:
  "NewPESHeader g [0x00, 0x00, 0x01, 0xBD, 0x00, 0x00] = Panic (IndexOutOfRange 6 6)"
  by (rule NewPESHeader_six_bytes) simp

text \<open>
  C4. The claim is that the data alignment flag stays false for a stream identifier
  without optional fields. The flag is read from byte 6 before the stream identifier
  is looked at: for the padding stream and bit 2 of byte 6 set, the parsed header is
  data aligned.
\<close>

theorem NewPESHeader_alignment_read_without_optional_fields:
  "\<exists>h. NewPESHeader g [0x00, 0x00, 0x01, 0xBE, 0x00, 0x00, 0x04] = Return (h, None) \<and>
        streamId h = STREAM_ID_PADDNG_STREAM \<and> \<not> optionalFieldsExist h \<and> DataAligned h"
  using NewPESHeader_returns [of "[0x00, 0x00, 0x01, 0xBE, 0x00, 0x00, 0x04]" g]
  by (auto simp: DataAligned_def optionalFieldsExist_def STREAM_ID_PADDNG_STREAM_def)

text \<open>
  C8. The claim includes that a buffer of exactly six bytes gives an empty payload
  without error. For the padding stream (no optional fields) and six bytes,
  \<open>NewPESHeader\<close> panics on the read of byte 6.
\<close>

theorem NewPESHeader_no_optional_six_bytes_panics:
  "NewPESHeader g [0x00, 0x00, 0x01, 0xBE, 0x00, 0x00] = Panic (IndexOutOfRange 6 6)"
  by (rule NewPESHeader_six_bytes) simp

text \<open>
  What holds of C4 and C8 on the code: from seven bytes on, a stream identifier without
  optional fields gives data start 6, no PTS, no DTS and all bytes from index 6 on as
  payload, whatever bytes 7 and 8 are; the flag is bit 2 of byte 6.
\<close>

lemma NewPESHeader_without_optional_fields:
  assumes "7 \<le> length pesBytes"
    and "pesBytes ! 3 \<in> {STREAM_ID_PADDNG_STREAM, STREAM_ID_PRIVATE_STREAM_2,
           STREAM_ID_ECM_STREAM, STREAM_ID_EMM_STREAM, STREAM_ID_DSM_CC_STREAM,
           STREAM_ID_ITU_T_H222_1_TYPE_E, STREAM_ID_PROGRAM_STREAM_DIRECTORY}"
  shows "\<exists>h. NewPESHeader g pesBytes = Return (h, None) \<and>
           dataStartIndex h = 6 \<and> PESHeader_PTS h = 0 \<and> PESHeader_DTS h = 0 \<and>
           PESHeader_Data h = drop 6 pesBytes \<and>
           DataAligned h = (pesBytes ! 6 AND 0x04 \<noteq> 0)"
proof -
  have no: "\<not> optionalFieldsExist (fixed_part pesBytes)"
    using assms(2) by (auto simp: optionalFieldsExist_def fixed_part_def)
  show ?thesis
    using assms(1) no
    by (simp add: NewPESHeader_seven_or_more [OF assms(1)] go_bind_Return fixed_part_def
        new_PESHeader_def PESHeader_PTS_def PESHeader_DTS_def PESHeader_Data_def DataAligned_def)
qed

section \<open>Properties: parseValue\<close>

lemma strings_Split_not_Nil: "strings_Split v sep \<noteq> []"
  by (induction v) (auto split: list.splits)

lemma length_strings_Split: "length (strings_Split v sep) = Suc (count_list v sep)"
  by (induction v) (auto simp: strings_Split_not_Nil split: list.splits)

lemma strings_Split_no_sep: "sep \<notin> set v \<Longrightarrow> strings_Split v sep = [v]"
  by (induction v) auto

lemma strings_Split_at_first:
  "sep \<notin> set p \<Longrightarrow> strings_Split (p @ sep # s) sep = p # strings_Split s sep"
  by (induction p) auto

text \<open>A string with one separator is cut at it.\<close>

lemma one_sep_decomp:
  assumes "count_list v sep = 1"
  shows "v = takeWhile (\<lambda>c. c \<noteq> sep) v @ sep # tl (dropWhile (\<lambda>c. c \<noteq> sep) v)"
    and "sep \<notin> set (takeWhile (\<lambda>c. c \<noteq> sep) v)"
    and "sep \<notin> set (tl (dropWhile (\<lambda>c. c \<noteq> sep) v))"
proof -
  let ?p = "takeWhile (\<lambda>c. c \<noteq> sep) v" and ?d = "dropWhile (\<lambda>c. c \<noteq> sep) v"
  have "sep \<in> set v"
    using assms count_list_0_iff [of v sep] by auto
  then have "?d \<noteq> []" by (simp add: dropWhile_eq_Nil_conv)
  moreover have "?d \<noteq> [] \<Longrightarrow> hd ?d = sep"
    using hd_dropWhile [of "\<lambda>c. c \<noteq> sep" v] by simp
  ultimately have d: "?d = sep # tl ?d"
    by (cases ?d) auto
  show v: "v = ?p @ sep # tl ?d"
    using takeWhile_dropWhile_id [of "\<lambda>c. c \<noteq> sep" v] d by metis
  show p: "sep \<notin> set ?p"
    using set_takeWhileD by fastforce
  have "count_list v sep = count_list ?p sep + count_list (sep # tl ?d) sep"
    using v by (metis count_list_append)
  then have "count_list (tl ?d) sep = 0"
    using assms p count_list_0_iff [of ?p sep] by simp
  then show "sep \<notin> set (tl ?d)"
    by (simp add: count_list_0_iff)
qed

lemma strings_Split_one_sep:
  assumes "count_list v sep = 1"
  shows "strings_Split v sep =
           [takeWhile (\<lambda>c. c \<noteq> sep) v, tl (dropWhile (\<lambda>c. c \<noteq> sep) v)]"
proof -
  let ?p = "takeWhile (\<lambda>c. c \<noteq> sep) v" and ?s = "tl (dropWhile (\<lambda>c. c \<noteq> sep) v)"
  have "strings_Split (?p @ sep # ?s) sep = ?p # strings_Split ?s sep"
    using one_sep_decomp(2) [OF assms] by (rule strings_Split_at_first)
  also have "strings_Split ?s sep = [?s]"
    using one_sep_decomp(3) [OF assms] by (rule strings_Split_no_sep)
  finally show ?thesis
    using one_sep_decomp(1) [OF assms] by simp
qed

text \<open>
  C6. \<open>parseValue\<close> splits on the NUL byte. The split has two segments exactly when
  the string has one NUL byte; then the prefix is the part before it and the value the
  part after it. With no NUL byte, or with two or more, the prefix is empty and the
  value is the string as it is.
\<close>

theorem parseValue_splits_on_single_NUL:
  "(length (strings_Split v NUL) = 2 \<longleftrightarrow> count_list v NUL = 1) \<and>
   (count_list v NUL = 1 \<longrightarrow>
      v = takeWhile (\<lambda>c. c \<noteq> NUL) v @ NUL # tl (dropWhile (\<lambda>c. c \<noteq> NUL) v) \<and>
      strings_Split v NUL = [takeWhile (\<lambda>c. c \<noteq> NUL) v, tl (dropWhile (\<lambda>c. c \<noteq> NUL) v)] \<and>
      parseValue v = \<lparr>Prefix = takeWhile (\<lambda>c. c \<noteq> NUL) v,
                       Value = tl (dropWhile (\<lambda>c. c \<noteq> NUL) v)\<rparr>) \<and>
   (count_list v NUL \<noteq> 1 \<longrightarrow> parseValue v = \<lparr>Prefix = [], Value = v\<rparr>)"
proof -
  have len: "length (strings_Split v NUL) = 2 \<longleftrightarrow> count_list v NUL = 1"
    by (simp add: length_strings_Split)
  have one: "parseValue v = \<lparr>Prefix = takeWhile (\<lambda>c. c \<noteq> NUL) v,
                       Value = tl (dropWhile (\<lambda>c. c \<noteq> NUL) v)\<rparr>"
    if "count_list v NUL = 1"
    using that by (simp add: parseValue_def strings_Split_one_sep)
  have other: "parseValue v = \<lparr>Prefix = [], Value = v\<rparr>" if "count_list v NUL \<noteq> 1"
    using that len by (simp add: parseValue_def Let_def)
  show ?thesis
    using len one other one_sep_decomp(1) [of v NUL] strings_Split_one_sep [of v NUL]
    by blast
qed

theorem parseValue_splits_on_single_NUL_witness:
  "count_list (''INTENSITY'' @ NUL # ''high'') NUL = 1 \<and>
   parseValue (''INTENSITY'' @ NUL # ''high'') = \<lparr>Prefix = ''INTENSITY'', Value = ''high''\<rparr> \<and>
   count_list ''high'' NUL \<noteq> 1 \<and>
   parseValue ''high'' = \<lparr>Prefix = [], Value = ''high''\<rparr> \<and>
   count_list (''a'' @ NUL # ''b'' @ NUL # ''c'') NUL \<noteq> 1 \<and>
   parseValue (''a'' @ NUL # ''b'' @ NUL # ''c'') =
     \<lparr>Prefix = [], Value = ''a'' @ NUL # ''b'' @ NUL # ''c''\<rparr>"
  using parseValue_splits_on_single_NUL [of "''INTENSITY'' @ NUL # ''high''"]
    parseValue_splits_on_single_NUL [of "''high''"]
    parseValue_splits_on_single_NUL [of "''a'' @ NUL # ''b'' @ NUL # ''c''"]
  by (simp add: NUL_def)

section \<open>Properties: the accumulator\<close>

text \<open>The definitions to unfold when the model runs on a concrete input.\<close>

lemmas stream_ids =
  STREAM_ID_PADDNG_STREAM_def STREAM_ID_PRIVATE_STREAM_2_def STREAM_ID_ECM_STREAM_def
  STREAM_ID_EMM_STREAM_def STREAM_ID_DSM_CC_STREAM_def STREAM_ID_ITU_T_H222_1_TYPE_E_def
  STREAM_ID_PROGRAM_STREAM_DIRECTORY_def

lemmas run_header =
  NewPESHeader_def parse_optional_fields_def CheckLength_def index_def slice_def slice_from_def
  go_bind_def optionalFieldsExist_def new_PESHeader_def example_gots_def stream_ids

lemmas run_accumulator =
  Write_def checkDone_def PacketSize_def PESHeader_Data_def new_PESAccumulator_def run_header

lemma checkDone_with_header:
  assumes "PESHeader pa = Some h"
  shows "checkDone pa =
           Return (if int (length (Data pa)) > packetSize pa
                   then (True, Some (Overrun (packetSize pa) (length (Data pa))))
                   else (int (length (Data pa)) = PacketSize h, None))"
  using assms by (simp add: checkDone_def)

text \<open>The first write, when the packet holds a header that parses.\<close>

lemma Write_first:
  assumes "PESHeader pa = None"
    and "packet_PESHeader g pkt = Inr pesBytes"
    and "NewPESHeader g pesBytes = Return (h, None)"
  shows "Write g pa pkt =
           Return (pa\<lparr>PESHeader := Some h, Data := PESHeader_Data h, packetSize := PacketSize h\<rparr>,
                   if int (length (PESHeader_Data h)) > PacketSize h
                   then (True, Some (Overrun (PacketSize h) (length (PESHeader_Data h))))
                   else (int (length (PESHeader_Data h)) = PacketSize h, None))"
  using assms by (simp add: Write_def go_bind_Return Let_def checkDone_with_header)

text \<open>A later write, when the packet has a payload.\<close>

lemma Write_next:
  assumes "PESHeader pa = Some h"
    and "packet_Payload g pkt = Inr payload"
  shows "Write g pa pkt =
           Return (pa\<lparr>Data := Data pa @ payload\<rparr>,
                   if int (length (Data pa @ payload)) > packetSize pa
                   then (True, Some (Overrun (packetSize pa) (length (Data pa @ payload))))
                   else (int (length (Data pa @ payload)) = PacketSize h, None))"
  using assms by (simp add: Write_def go_bind_Return Let_def checkDone_with_header)

text \<open>
  One write from an accumulator that is not overrun: the overrun error comes exactly
  with a buffer longer than the expected size, and it comes with done.
\<close>

lemma Write_overrun_iff:
  assumes "int (length (Data pa)) \<le> packetSize pa"
    and "Write g pa pkt = Return (pa', done, err)"
  shows "is_overrun err \<longleftrightarrow> packetSize pa' < int (length (Data pa'))"
    and "is_overrun err \<longrightarrow> done"
  using assms
  by (auto simp: Write_def go_bind_def Let_def checkDone_def is_overrun_def
      split: option.splits sum.splits go.splits if_splits prod.splits)


lemma PacketSize_zero_length:
  assumes "pesPacketLength h = 0"
  shows "PacketSize h = 6 - dataStartIndex h"
  using assms by (simp add: PacketSize_def)

text \<open>
  C10. A header parsed without error, with declared length 0 and a data start other
  than 6: the data start is at least 9, \<open>PacketSize\<close> is negative, and the first write
  of an accumulator reports the overrun, whatever the buffer holds (also nothing). So a
  declared length of 0 can complete at once only with data start 6.
\<close>

theorem zero_length_with_optional_header_overruns:
  assumes "PESHeader pa = None"
    and "packet_PESHeader g pkt = Inr pesBytes"
    and "NewPESHeader g pesBytes = Return (h, None)"
    and "pesPacketLength h = 0"
    and "dataStartIndex h \<noteq> 6"
  shows "9 \<le> dataStartIndex h \<and> PacketSize h < 0 \<and>
         Write g pa pkt =
           Return (pa\<lparr>PESHeader := Some h, Data := PESHeader_Data h, packetSize := PacketSize h\<rparr>,
                   True, Some (Overrun (PacketSize h) (length (PESHeader_Data h))))"
proof -
  have start: "9 \<le> dataStartIndex h"
    using NewPESHeader_dataStartIndex [OF assms(3)] assms(5) by simp
  then have neg: "PacketSize h < 0"
    by (simp add: PacketSize_zero_length [OF assms(4)])
  then have "int (length (PESHeader_Data h)) > PacketSize h"
    by linarith
  then show ?thesis
    using start neg by (simp add: Write_first [OF assms(1-3)])
qed

theorem zero_length_with_optional_header_overruns_witness:
  "PESHeader new_PESAccumulator = None \<and>
   packet_PESHeader example_gots [0x47, 0x41, 0x00, 0x10, 0x00, 0x00, 0x01, 0xBD, 0x00, 0x00, 0x80, 0x00, 0x00]
     = Inr [0x00, 0x00, 0x01, 0xBD, 0x00, 0x00, 0x80, 0x00, 0x00] \<and>
   NewPESHeader example_gots [0x00, 0x00, 0x01, 0xBD, 0x00, 0x00, 0x80, 0x00, 0x00] =
     Return (\<lparr>packetStartCodePrefix = 1, dataAlignment = False, streamId = 0xBD,
              pesPacketLength = 0, dataStartIndex = 9, ptsDtsIndicator = 0, pts = 0, dts = 0,
              data = []\<rparr>, None) \<and>
   Write example_gots new_PESAccumulator
       [0x47, 0x41, 0x00, 0x10, 0x00, 0x00, 0x01, 0xBD, 0x00, 0x00, 0x80, 0x00, 0x00] =
     Return (\<lparr>PESHeader = Some \<lparr>packetStartCodePrefix = 1, dataAlignment = False, streamId = 0xBD,
                pesPacketLength = 0, dataStartIndex = 9, ptsDtsIndicator = 0, pts = 0, dts = 0,
                data = []\<rparr>, packetSize = - 3, Data = []\<rparr>,
             True, Some (Overrun (- 3) 0))"
proof -
  let ?pkt = "[0x47, 0x41, 0x00, 0x10, 0x00, 0x00, 0x01, 0xBD, 0x00, 0x00, 0x80, 0x00, 0x00] :: u8 list"
  let ?bytes = "[0x00, 0x00, 0x01, 0xBD, 0x00, 0x00, 0x80, 0x00, 0x00] :: u8 list"
  let ?h = "\<lparr>packetStartCodePrefix = 1, dataAlignment = False, streamId = 0xBD,
              pesPacketLength = 0, dataStartIndex = 9, ptsDtsIndicator = 0, pts = 0, dts = 0,
              data = []\<rparr>"
  have fresh: "PESHeader new_PESAccumulator = None"
    by (simp add: new_PESAccumulator_def)
  have pkt: "packet_PESHeader example_gots ?pkt = Inr ?bytes"
    by (simp add: example_gots_def)
  have parse: "NewPESHeader example_gots ?bytes = Return (?h, None)"
    by (simp add: run_header)
  have zero: "pesPacketLength ?h = 0" and start: "dataStartIndex ?h \<noteq> 6"
    by simp_all
  show ?thesis
    using zero_length_with_optional_header_overruns [OF fresh pkt parse zero start] fresh pkt parse
    by (simp add: PacketSize_def PESHeader_Data_def new_PESAccumulator_def)
qed


text \<open>
  An accumulator that is not overrun is fed any packets. Every write that returns
  reports the overrun error exactly when the buffer it leaves is longer than the
  expected size; the overrun comes with done and is the last thing reported.
\<close>

lemma overrun_iff_along_feed:
  assumes "int (length (Data pa)) \<le> packetSize pa"
  shows "\<forall>i pa' done err.
           i < length (feed g pa pkts) \<and> feed g pa pkts ! i = Return (pa', done, err) \<longrightarrow>
             (is_overrun err \<longleftrightarrow> packetSize pa' < int (length (Data pa'))) \<and>
             (is_overrun err \<longrightarrow> done \<and> Suc i = length (feed g pa pkts))"
  using assms
proof (induction pkts arbitrary: pa)
  case Nil
  then show ?case by simp
next
  case (Cons pkt pkts)
  show ?case
  proof (cases "Write g pa pkt")
    case (Panic p)
    then show ?thesis by simp
  next
    case (Return r)
    obtain pa1 done1 err1 where r: "r = (pa1, done1, err1)"
      by (cases r) auto
    have w: "Write g pa pkt = Return (pa1, done1, err1)"
      using Return r by simp
    note step = Write_overrun_iff [OF Cons.prems w]
    show ?thesis
    proof (cases "done1 \<or> err1 \<noteq> None")
      case True
      then have "feed g pa (pkt # pkts) = [Return (pa1, done1, err1)]"
        using w by simp
      then show ?thesis
        using step by auto
    next
      case False
      then have none: "err1 = None" and nd: "\<not> done1" by auto
      have "\<not> is_overrun err1"
        using none by (simp add: is_overrun_def)
      then have inv: "int (length (Data pa1)) \<le> packetSize pa1"
        using step(1) by simp
      have f: "feed g pa (pkt # pkts) = Return (pa1, done1, err1) # feed g pa1 pkts"
        using w False by simp
      show ?thesis
      proof (intro allI impI)
        fix i pa' done' err'
        assume a: "i < length (feed g pa (pkt # pkts)) \<and>
                   feed g pa (pkt # pkts) ! i = Return (pa', done', err')"
        show "(is_overrun err' \<longleftrightarrow> packetSize pa' < int (length (Data pa'))) \<and>
              (is_overrun err' \<longrightarrow> done' \<and> Suc i = length (feed g pa (pkt # pkts)))"
        proof (cases i)
          case 0
          then have "pa' = pa1" "done' = done1" "err' = err1"
            using a f by simp_all
          then show ?thesis
            using step nd by simp
        next
          case (Suc j)
          have len: "length (feed g pa (pkt # pkts)) = Suc (length (feed g pa1 pkts))"
            by (simp only: f list.size)
          have "j < length (feed g pa1 pkts) \<and> feed g pa1 pkts ! j = Return (pa', done', err')"
            using a Suc by (simp only: f len) simp
          then have "(is_overrun err' \<longleftrightarrow> packetSize pa' < int (length (Data pa'))) \<and>
              (is_overrun err' \<longrightarrow> done' \<and> Suc j = length (feed g pa1 pkts))"
            using Cons.IH [OF inv] by blast
          then show ?thesis
            using Suc by (simp only: len) simp
        qed
      qed
    qed
  qed
qed


text \<open>
  The collecting phase, write by write: the header is there and the buffer with the
  first \<open>m\<close> payloads is still below the expected size. The write of the next payload
  leaves the buffer with that payload appended, reports the overrun when this is longer
  than the expected size, done when it is as long, and it is the last write in both cases.
\<close>

lemma feed_collecting_nth:
  assumes "PESHeader pa = Some h"
    and "packetSize pa = PacketSize h"
    and "map (packet_Payload g) ps = map Inr cs"
    and "m < length cs"
    and "int (length (Data pa @ concat (take m cs))) < PacketSize h"
  shows "m < length (feed g pa ps) \<and>
         feed g pa ps ! m =
           Return (pa\<lparr>Data := Data pa @ concat (take (Suc m) cs)\<rparr>,
                   if PacketSize h < int (length (Data pa @ concat (take (Suc m) cs)))
                   then (True, Some (Overrun (PacketSize h)
                                      (length (Data pa @ concat (take (Suc m) cs)))))
                   else (int (length (Data pa @ concat (take (Suc m) cs))) = PacketSize h, None)) \<and>
         (PacketSize h \<le> int (length (Data pa @ concat (take (Suc m) cs))) \<longrightarrow>
            length (feed g pa ps) = Suc m)"
  using assms
proof (induction ps arbitrary: pa cs m)
  case Nil
  then show ?case by simp
next
  case (Cons p ps)
  then obtain c cs' where cs: "cs = c # cs'"
    and c: "packet_Payload g p = Inr c"
    and rest: "map (packet_Payload g) ps = map Inr cs'"
    by (cases cs) auto
  let ?pa1 = "pa\<lparr>Data := Data pa @ c\<rparr>"
  note w = Write_next [OF Cons.prems(1) c]
  show ?case
  proof (cases m)
    case 0
    show ?thesis
      using Cons.prems(2) by (simp add: 0 cs w)
  next
    case (Suc m')
    have below: "int (length (Data pa @ c @ concat (take m' cs'))) < PacketSize h"
      using Cons.prems(5) by (simp add: Suc cs)
    then have lt: "int (length (Data pa @ c)) < PacketSize h"
      by simp
    have w1: "Write g pa p = Return (?pa1, False, None)"
      using lt Cons.prems(2) by (simp add: w)
    have f: "feed g pa (p # ps) = Return (?pa1, False, None) # feed g ?pa1 ps"
      using w1 by simp
    have ih: "m' < length (feed g ?pa1 ps) \<and>
         feed g ?pa1 ps ! m' =
           Return (?pa1\<lparr>Data := Data ?pa1 @ concat (take (Suc m') cs')\<rparr>,
                   if PacketSize h < int (length (Data ?pa1 @ concat (take (Suc m') cs')))
                   then (True, Some (Overrun (PacketSize h)
                                      (length (Data ?pa1 @ concat (take (Suc m') cs')))))
                   else (int (length (Data ?pa1 @ concat (take (Suc m') cs'))) = PacketSize h, None)) \<and>
         (PacketSize h \<le> int (length (Data ?pa1 @ concat (take (Suc m') cs'))) \<longrightarrow>
            length (feed g ?pa1 ps) = Suc m')"
    proof (rule Cons.IH [OF _ _ rest])
      show "PESHeader ?pa1 = Some h" using Cons.prems(1) by simp
      show "packetSize ?pa1 = PacketSize h" using Cons.prems(2) by simp
      show "m' < length cs'" using Cons.prems(4) by (simp add: Suc cs)
      show "int (length (Data ?pa1 @ concat (take m' cs'))) < PacketSize h"
        using below by simp
    qed
    have d: "Data ?pa1 @ concat (take (Suc m') cs') = Data pa @ concat (take (Suc m) cs)"
      by (simp add: Suc cs)
    have u: "?pa1\<lparr>Data := Data pa @ concat (take (Suc m) cs)\<rparr> =
             pa\<lparr>Data := Data pa @ concat (take (Suc m) cs)\<rparr>"
      by simp
    show ?thesis
      using ih unfolding d u by (simp only: f Suc) simp
  qed
qed

text \<open>
  C3. An accumulator without a header gets a packet whose header parses (chunk 0), then
  packets with payloads (chunks 1, 2, ...). Chunk \<open>n\<close> is written while the buffer is
  still below the expected size. That write leaves in the buffer the header's trailing
  bytes followed by the first \<open>n\<close> payloads; it reports the overrun error, with done,
  exactly when this buffer is longer than the expected size; and when the buffer has
  reached or passed the size it is the last write. So the overrun is reported by the
  write of the chunk that takes the buffer over the size, no chunk is written after
  it, and no buffer above the size goes without the error.
\<close>

theorem overrun_on_crossing_chunk:
  assumes "PESHeader pa = None"
    and "packet_PESHeader g p0 = Inr pesBytes"
    and "NewPESHeader g pesBytes = Return (h, None)"
    and "map (packet_Payload g) ps = map Inr cs"
    and "n \<le> length cs"
    and "n = 0 \<or> int (length (PESHeader_Data h @ concat (take (n - 1) cs))) < PacketSize h"
  shows "n < length (feed g pa (p0 # ps)) \<and>
         feed g pa (p0 # ps) ! n =
           Return (pa\<lparr>PESHeader := Some h, Data := PESHeader_Data h @ concat (take n cs),
                      packetSize := PacketSize h\<rparr>,
                   if PacketSize h < int (length (PESHeader_Data h @ concat (take n cs)))
                   then (True, Some (Overrun (PacketSize h)
                                      (length (PESHeader_Data h @ concat (take n cs)))))
                   else (int (length (PESHeader_Data h @ concat (take n cs))) = PacketSize h, None)) \<and>
         (PacketSize h \<le> int (length (PESHeader_Data h @ concat (take n cs))) \<longrightarrow>
            length (feed g pa (p0 # ps)) = Suc n)"
proof (cases n)
  case 0
  show ?thesis
    by (simp add: 0 Write_first [OF assms(1-3)])
next
  case (Suc m)
  let ?pa1 = "pa\<lparr>PESHeader := Some h, Data := PESHeader_Data h, packetSize := PacketSize h\<rparr>"
  have below: "int (length (PESHeader_Data h @ concat (take m cs))) < PacketSize h"
    using assms(6) by (simp add: Suc)
  then have lt: "int (length (PESHeader_Data h)) < PacketSize h"
    by simp
  have w1: "Write g pa p0 = Return (?pa1, False, None)"
    using lt by (simp add: Write_first [OF assms(1-3)])
  have f: "feed g pa (p0 # ps) = Return (?pa1, False, None) # feed g ?pa1 ps"
    using w1 by simp
  have c: "m < length (feed g ?pa1 ps) \<and>
         feed g ?pa1 ps ! m =
           Return (?pa1\<lparr>Data := Data ?pa1 @ concat (take (Suc m) cs)\<rparr>,
                   if PacketSize h < int (length (Data ?pa1 @ concat (take (Suc m) cs)))
                   then (True, Some (Overrun (PacketSize h)
                                      (length (Data ?pa1 @ concat (take (Suc m) cs)))))
                   else (int (length (Data ?pa1 @ concat (take (Suc m) cs))) = PacketSize h, None)) \<and>
         (PacketSize h \<le> int (length (Data ?pa1 @ concat (take (Suc m) cs))) \<longrightarrow>
            length (feed g ?pa1 ps) = Suc m)"
  proof (rule feed_collecting_nth [OF _ _ assms(4)])
    show "PESHeader ?pa1 = Some h" by simp
    show "packetSize ?pa1 = PacketSize h" by simp
    show "m < length cs" using assms(5) by (simp add: Suc)
    show "int (length (Data ?pa1 @ concat (take m cs))) < PacketSize h"
      using below by simp
  qed
  have d: "Data ?pa1 = PESHeader_Data h"
    by simp
  have u: "?pa1\<lparr>Data := PESHeader_Data h @ concat (take (Suc m) cs)\<rparr> =
           pa\<lparr>PESHeader := Some h, Data := PESHeader_Data h @ concat (take (Suc m) cs),
              packetSize := PacketSize h\<rparr>"
    by simp
  show ?thesis
    using c unfolding d u by (simp only: f Suc) simp
qed


theorem overrun_on_crossing_chunk_witness:
  "PESHeader new_PESAccumulator = None \<and>
   packet_PESHeader example_gots
       [0x47, 0x41, 0x00, 0x10, 0x00, 0x00, 0x01, 0xBD, 0x00, 0x05, 0x80, 0x00, 0x00, 0xAA] =
     Inr [0x00, 0x00, 0x01, 0xBD, 0x00, 0x05, 0x80, 0x00, 0x00, 0xAA] \<and>
   NewPESHeader example_gots [0x00, 0x00, 0x01, 0xBD, 0x00, 0x05, 0x80, 0x00, 0x00, 0xAA] =
     Return (\<lparr>packetStartCodePrefix = 1, dataAlignment = False, streamId = 0xBD,
              pesPacketLength = 5, dataStartIndex = 9, ptsDtsIndicator = 0, pts = 0, dts = 0,
              data = [0xAA]\<rparr>, None) \<and>
   map (packet_Payload example_gots)
       [[0x47, 0x01, 0x00, 0x10, 0x01, 0x02], [0x47, 0x01, 0x00, 0x10, 0x03]] =
     map Inr [[0x01, 0x02], [0x03]] \<and>
   (1::nat) \<le> length [[0x01, 0x02], [0x03 :: u8]] \<and>
   int (length [0xAA :: u8]) < 2 \<and>
   feed example_gots new_PESAccumulator
     [[0x47, 0x41, 0x00, 0x10, 0x00, 0x00, 0x01, 0xBD, 0x00, 0x05, 0x80, 0x00, 0x00, 0xAA],
      [0x47, 0x01, 0x00, 0x10, 0x01, 0x02], [0x47, 0x01, 0x00, 0x10, 0x03]] =
     [Return (\<lparr>PESHeader = Some \<lparr>packetStartCodePrefix = 1, dataAlignment = False,
                 streamId = 0xBD, pesPacketLength = 5, dataStartIndex = 9, ptsDtsIndicator = 0,
                 pts = 0, dts = 0, data = [0xAA]\<rparr>, packetSize = 2, Data = [0xAA]\<rparr>,
              False, None),
      Return (\<lparr>PESHeader = Some \<lparr>packetStartCodePrefix = 1, dataAlignment = False,
                 streamId = 0xBD, pesPacketLength = 5, dataStartIndex = 9, ptsDtsIndicator = 0,
                 pts = 0, dts = 0, data = [0xAA]\<rparr>, packetSize = 2, Data = [0xAA, 0x01, 0x02]\<rparr>,
              True, Some (Overrun 2 3))]"
proof -
  let ?p0 = "[0x47, 0x41, 0x00, 0x10, 0x00, 0x00, 0x01, 0xBD, 0x00, 0x05, 0x80, 0x00, 0x00, 0xAA] :: u8 list"
  let ?bytes = "[0x00, 0x00, 0x01, 0xBD, 0x00, 0x05, 0x80, 0x00, 0x00, 0xAA] :: u8 list"
  let ?h = "\<lparr>packetStartCodePrefix = 1, dataAlignment = False, streamId = 0xBD,
              pesPacketLength = 5, dataStartIndex = 9, ptsDtsIndicator = 0, pts = 0, dts = 0,
              data = [0xAA]\<rparr>"
  let ?ps = "[[0x47, 0x01, 0x00, 0x10, 0x01, 0x02], [0x47, 0x01, 0x00, 0x10, 0x03]] :: u8 list list"
  let ?cs = "[[0x01, 0x02], [0x03]] :: u8 list list"
  have fresh: "PESHeader new_PESAccumulator = None"
    by (simp add: new_PESAccumulator_def)
  have pkt: "packet_PESHeader example_gots ?p0 = Inr ?bytes"
    by (simp add: example_gots_def)
  have parse: "NewPESHeader example_gots ?bytes = Return (?h, None)"
    by (simp add: run_header)
  have pay: "map (packet_Payload example_gots) ?ps = map Inr ?cs"
    by (simp add: example_gots_def)
  have n: "(1::nat) \<le> length ?cs"
    by simp
  have below: "(1::nat) = 0 \<or>
      int (length (PESHeader_Data ?h @ concat (take (1 - 1) ?cs))) < PacketSize ?h"
    by (simp add: PESHeader_Data_def PacketSize_def)
  show ?thesis
    using overrun_on_crossing_chunk [OF fresh pkt parse pay n below] fresh pkt parse pay
    by (simp add: run_accumulator)
qed

text \<open>
  The collecting phase: the header is there, the buffer is below the expected size and
  the payloads to come fill it exactly. The writes report not done until one reports
  done, with the whole concatenation in the buffer.
\<close>

lemma feed_collecting_exact:
  assumes "PESHeader pa = Some h"
    and "packetSize pa = PacketSize h"
    and "map (packet_Payload g) ps = map Inr cs"
    and "int (length (Data pa) + length (concat cs)) = PacketSize h"
    and "int (length (Data pa)) < PacketSize h"
  shows "\<exists>pas pa'. feed g pa ps = map (\<lambda>a. Return (a, False, None)) pas @ [Return (pa', True, None)] \<and>
           Data pa' = Data pa @ concat cs \<and> PESHeader pa' = Some h"
  using assms
proof (induction ps arbitrary: pa cs)
  case Nil
  then show ?case by simp
next
  case (Cons p ps)
  then obtain c cs' where cs: "cs = c # cs'"
    and c: "packet_Payload g p = Inr c"
    and rest: "map (packet_Payload g) ps = map Inr cs'"
    by (cases cs) auto
  let ?pa1 = "pa\<lparr>Data := Data pa @ c\<rparr>"
  have le: "int (length (Data pa @ c)) \<le> PacketSize h"
    using Cons.prems(4) cs by simp
  show ?case
  proof (cases "int (length (Data pa @ c)) = PacketSize h")
    case True
    then have w: "Write g pa p = Return (?pa1, True, None)"
      using Cons.prems(2) by (simp add: Write_next [OF Cons.prems(1) c])
    have e: "int (length (Data pa)) + int (length c) + int (length (concat cs')) = PacketSize h"
      using Cons.prems(4) cs by simp
    have t: "int (length (Data pa)) + int (length c) = PacketSize h"
      using True by simp
    have "length (concat cs') = 0"
      using e t by linarith
    then have "concat cs' = []"
      by (rule length_0_conv [THEN iffD1])
    then have "feed g pa (p # ps) = map (\<lambda>a. Return (a, False, None)) [] @ [Return (?pa1, True, None)] \<and>
           Data ?pa1 = Data pa @ concat cs \<and> PESHeader ?pa1 = Some h"
      using w cs Cons.prems(1) by simp
    then show ?thesis by blast
  next
    case False
    then have lt: "int (length (Data pa @ c)) < PacketSize h"
      using le by simp
    then have w: "Write g pa p = Return (?pa1, False, None)"
      using Cons.prems(2) by (simp add: Write_next [OF Cons.prems(1) c])
    have "\<exists>pas pa'. feed g ?pa1 ps = map (\<lambda>a. Return (a, False, None)) pas @ [Return (pa', True, None)] \<and>
           Data pa' = Data ?pa1 @ concat cs' \<and> PESHeader pa' = Some h"
    proof (rule Cons.IH [OF _ _ rest])
      show "PESHeader ?pa1 = Some h" using Cons.prems(1) by simp
      show "packetSize ?pa1 = PacketSize h" using Cons.prems(2) by simp
      show "int (length (Data ?pa1) + length (concat cs')) = PacketSize h"
        using Cons.prems(4) cs by simp
      show "int (length (Data ?pa1)) < PacketSize h" using lt by simp
    qed
    then obtain pas pa' where
      f: "feed g ?pa1 ps = map (\<lambda>a. Return (a, False, None)) pas @ [Return (pa', True, None)]"
      and d: "Data pa' = Data ?pa1 @ concat cs'" and hd: "PESHeader pa' = Some h"
      by blast
    have "feed g pa (p # ps) = map (\<lambda>a. Return (a, False, None)) (?pa1 # pas) @ [Return (pa', True, None)]"
      using w f by simp
    moreover have "Data pa' = Data pa @ concat cs"
      using d cs by simp
    ultimately show ?thesis
      using hd by blast
  qed
qed

text \<open>
  C2. An accumulator without a header gets a first packet whose header parses, then
  packets with payloads; the header's trailing bytes and the payloads have the expected
  size together. One write reports done, the last one made; the writes before it report
  not done, none reports an error, and the buffer is the trailing bytes followed by
  the payloads in order. With expected size 0 and no trailing bytes the first write
  reports done, with an empty buffer.
\<close>

theorem exact_size_reports_done_once:
  assumes "PESHeader pa = None"
    and "packet_PESHeader g p0 = Inr pesBytes"
    and "NewPESHeader g pesBytes = Return (h, None)"
  shows "(PacketSize h = 0 \<and> PESHeader_Data h = [] \<longrightarrow>
            feed g pa (p0 # ps) =
              [Return (pa\<lparr>PESHeader := Some h, Data := [], packetSize := 0\<rparr>, True, None)]) \<and>
         (map (packet_Payload g) ps = map Inr cs \<and>
          int (length (PESHeader_Data h) + length (concat cs)) = PacketSize h \<longrightarrow>
            (\<exists>pas pa'. feed g pa (p0 # ps) =
                         map (\<lambda>a. Return (a, False, None)) pas @ [Return (pa', True, None)] \<and>
                       Data pa' = PESHeader_Data h @ concat cs \<and> PESHeader pa' = Some h))"
proof (intro conjI impI)
  assume "PacketSize h = 0 \<and> PESHeader_Data h = []"
  then show "feed g pa (p0 # ps) =
              [Return (pa\<lparr>PESHeader := Some h, Data := [], packetSize := 0\<rparr>, True, None)]"
    by (simp add: Write_first [OF assms])
next
  assume a: "map (packet_Payload g) ps = map Inr cs \<and>
          int (length (PESHeader_Data h) + length (concat cs)) = PacketSize h"
  let ?pa1 = "pa\<lparr>PESHeader := Some h, Data := PESHeader_Data h, packetSize := PacketSize h\<rparr>"
  have le: "int (length (PESHeader_Data h)) \<le> PacketSize h"
    using a by linarith
  show "\<exists>pas pa'. feed g pa (p0 # ps) =
                         map (\<lambda>a. Return (a, False, None)) pas @ [Return (pa', True, None)] \<and>
                       Data pa' = PESHeader_Data h @ concat cs \<and> PESHeader pa' = Some h"
  proof (cases "int (length (PESHeader_Data h)) = PacketSize h")
    case True
    then have w: "Write g pa p0 = Return (?pa1, True, None)"
      by (simp add: Write_first [OF assms])
    have e: "int (length (PESHeader_Data h)) + int (length (concat cs)) = PacketSize h"
      using a by simp
    have "length (concat cs) = 0"
      using e True by linarith
    then have "concat cs = []"
      by (rule length_0_conv [THEN iffD1])
    then have "feed g pa (p0 # ps) = map (\<lambda>a. Return (a, False, None)) [] @ [Return (?pa1, True, None)] \<and>
           Data ?pa1 = PESHeader_Data h @ concat cs \<and> PESHeader ?pa1 = Some h"
      using w by simp
    then show ?thesis by blast
  next
    case False
    then have lt: "int (length (PESHeader_Data h)) < PacketSize h"
      using le by simp
    then have w: "Write g pa p0 = Return (?pa1, False, None)"
      by (simp add: Write_first [OF assms])
    have "\<exists>pas pa'. feed g ?pa1 ps = map (\<lambda>a. Return (a, False, None)) pas @ [Return (pa', True, None)] \<and>
           Data pa' = Data ?pa1 @ concat cs \<and> PESHeader pa' = Some h"
    proof (rule feed_collecting_exact)
      show "PESHeader ?pa1 = Some h" by simp
      show "packetSize ?pa1 = PacketSize h" by simp
      show "map (packet_Payload g) ps = map Inr cs" using a by simp
      show "int (length (Data ?pa1) + length (concat cs)) = PacketSize h" using a by simp
      show "int (length (Data ?pa1)) < PacketSize h" using lt by simp
    qed
    then obtain pas pa' where
      f: "feed g ?pa1 ps = map (\<lambda>a. Return (a, False, None)) pas @ [Return (pa', True, None)]"
      and d: "Data pa' = Data ?pa1 @ concat cs" and hd: "PESHeader pa' = Some h"
      by blast
    have "feed g pa (p0 # ps) = map (\<lambda>a. Return (a, False, None)) (?pa1 # pas) @ [Return (pa', True, None)]"
      using w f by simp
    moreover have "Data pa' = PESHeader_Data h @ concat cs"
      using d by simp
    ultimately show ?thesis
      using hd by blast
  qed
qed


theorem exact_size_reports_done_once_witness:
  "PESHeader new_PESAccumulator = None \<and>
   packet_PESHeader example_gots
       [0x47, 0x41, 0x00, 0x10, 0x00, 0x00, 0x01, 0xBD, 0x00, 0x06, 0x80, 0x00, 0x00, 0xAA] =
     Inr [0x00, 0x00, 0x01, 0xBD, 0x00, 0x06, 0x80, 0x00, 0x00, 0xAA] \<and>
   NewPESHeader example_gots [0x00, 0x00, 0x01, 0xBD, 0x00, 0x06, 0x80, 0x00, 0x00, 0xAA] =
     Return (\<lparr>packetStartCodePrefix = 1, dataAlignment = False, streamId = 0xBD,
              pesPacketLength = 6, dataStartIndex = 9, ptsDtsIndicator = 0, pts = 0, dts = 0,
              data = [0xAA]\<rparr>, None) \<and>
   map (packet_Payload example_gots) [[0x47, 0x01, 0x00, 0x10, 0x01], [0x47, 0x01, 0x00, 0x10, 0x02]] =
     map Inr [[0x01], [0x02]] \<and>
   feed example_gots new_PESAccumulator
     [[0x47, 0x41, 0x00, 0x10, 0x00, 0x00, 0x01, 0xBD, 0x00, 0x06, 0x80, 0x00, 0x00, 0xAA],
      [0x47, 0x01, 0x00, 0x10, 0x01], [0x47, 0x01, 0x00, 0x10, 0x02]] =
     [Return (\<lparr>PESHeader = Some \<lparr>packetStartCodePrefix = 1, dataAlignment = False,
                 streamId = 0xBD, pesPacketLength = 6, dataStartIndex = 9, ptsDtsIndicator = 0,
                 pts = 0, dts = 0, data = [0xAA]\<rparr>, packetSize = 3, Data = [0xAA]\<rparr>,
              False, None),
      Return (\<lparr>PESHeader = Some \<lparr>packetStartCodePrefix = 1, dataAlignment = False,
                 streamId = 0xBD, pesPacketLength = 6, dataStartIndex = 9, ptsDtsIndicator = 0,
                 pts = 0, dts = 0, data = [0xAA]\<rparr>, packetSize = 3, Data = [0xAA, 0x01]\<rparr>,
              False, None),
      Return (\<lparr>PESHeader = Some \<lparr>packetStartCodePrefix = 1, dataAlignment = False,
                 streamId = 0xBD, pesPacketLength = 6, dataStartIndex = 9, ptsDtsIndicator = 0,
                 pts = 0, dts = 0, data = [0xAA]\<rparr>, packetSize = 3, Data = [0xAA, 0x01, 0x02]\<rparr>,
              True, None)] \<and>
   NewPESHeader example_gots [0x00, 0x00, 0x01, 0xBD, 0x00, 0x03, 0x80, 0x00, 0x00] =
     Return (\<lparr>packetStartCodePrefix = 1, dataAlignment = False, streamId = 0xBD,
              pesPacketLength = 3, dataStartIndex = 9, ptsDtsIndicator = 0, pts = 0, dts = 0,
              data = []\<rparr>, None) \<and>
   PacketSize \<lparr>packetStartCodePrefix = 1, dataAlignment = False, streamId = 0xBD,
              pesPacketLength = 3, dataStartIndex = 9, ptsDtsIndicator = 0, pts = 0, dts = 0,
              data = []\<rparr> = 0 \<and>
   feed example_gots new_PESAccumulator
     [[0x47, 0x41, 0x00, 0x10, 0x00, 0x00, 0x01, 0xBD, 0x00, 0x03, 0x80, 0x00, 0x00]] =
     [Return (\<lparr>PESHeader = Some \<lparr>packetStartCodePrefix = 1, dataAlignment = False,
                 streamId = 0xBD, pesPacketLength = 3, dataStartIndex = 9, ptsDtsIndicator = 0,
                 pts = 0, dts = 0, data = []\<rparr>, packetSize = 0, Data = []\<rparr>,
              True, None)]"
proof -
  let ?q0 = "[0x47, 0x41, 0x00, 0x10, 0x00, 0x00, 0x01, 0xBD, 0x00, 0x03, 0x80, 0x00, 0x00] :: u8 list"
  let ?qbytes = "[0x00, 0x00, 0x01, 0xBD, 0x00, 0x03, 0x80, 0x00, 0x00] :: u8 list"
  let ?k = "\<lparr>packetStartCodePrefix = 1, dataAlignment = False, streamId = 0xBD,
              pesPacketLength = 3, dataStartIndex = 9, ptsDtsIndicator = 0, pts = 0, dts = 0,
              data = []\<rparr>"
  have qpkt: "packet_PESHeader example_gots ?q0 = Inr ?qbytes"
    by (simp add: example_gots_def)
  have qparse: "NewPESHeader example_gots ?qbytes = Return (?k, None)"
    by (simp add: run_header)
  let ?p0 = "[0x47, 0x41, 0x00, 0x10, 0x00, 0x00, 0x01, 0xBD, 0x00, 0x06, 0x80, 0x00, 0x00, 0xAA] :: u8 list"
  let ?bytes = "[0x00, 0x00, 0x01, 0xBD, 0x00, 0x06, 0x80, 0x00, 0x00, 0xAA] :: u8 list"
  let ?h = "\<lparr>packetStartCodePrefix = 1, dataAlignment = False, streamId = 0xBD,
              pesPacketLength = 6, dataStartIndex = 9, ptsDtsIndicator = 0, pts = 0, dts = 0,
              data = [0xAA]\<rparr>"
  have fresh: "PESHeader new_PESAccumulator = None"
    by (simp add: new_PESAccumulator_def)
  have pkt: "packet_PESHeader example_gots ?p0 = Inr ?bytes"
    by (simp add: example_gots_def)
  have parse: "NewPESHeader example_gots ?bytes = Return (?h, None)"
    by (simp add: run_header)
  show ?thesis
    using exact_size_reports_done_once [OF fresh pkt parse,
        of "[[0x47, 0x01, 0x00, 0x10, 0x01], [0x47, 0x01, 0x00, 0x10, 0x02]]" "[[0x01], [0x02]]"]
      exact_size_reports_done_once [OF fresh qpkt qparse, of "[]" "[]"]
      fresh pkt parse qparse
    by (simp add: run_accumulator)
qed

section \<open>Properties: the pipeline\<close>

lemma io_ReadFull_packet:
  assumes "length pkt = n"
  shows "io_ReadFull \<lparr>remaining = pkt @ rest, terminal = e\<rparr> n =
           (Inr pkt, \<lparr>remaining = rest, terminal = e\<rparr>)"
  using assms by (simp add: io_ReadFull_def)

lemma io_ReadFull_fails:
  assumes "length rest < n"
  shows "io_ReadFull \<lparr>remaining = rest, terminal = e\<rparr> n =
           (Inl (if rest \<noteq> [] \<and> e = EOF then ErrUnexpectedEOF else e),
            \<lparr>remaining = [], terminal = e\<rparr>)"
  using assms by (simp add: io_ReadFull_def)

text \<open>What the loop sends when a read fails.\<close>

lemma readPacketStream_loop_read_fails:
  assumes "length rest < 188"
  shows "readPacketStream_loop g d \<lparr>remaining = rest, terminal = e\<rparr> metadataPID pa =
           Return (errInfoChan
             (if errors_Is e EOF \<or> errors_Is e ErrUnexpectedEOF then EOF
              else Wrapped ''failed packet read'' e))"
  using assms
  by (subst readPacketStream_loop.simps) (auto simp: io_ReadFull_fails)

text \<open>The loop on full packets followed by less than a packet.\<close>

lemma readPacketStream_loop_packets:
  assumes "list_all (\<lambda>pkt. length pkt = 188) pkts"
    and "length rest < 188"
  shows "readPacketStream_loop g d \<lparr>remaining = concat pkts @ rest, terminal = e\<rparr> metadataPID pa =
           (case run_packets g d metadataPID pa pkts of
              Panic p \<Rightarrow> Panic p
            | Return (sent, None) \<Rightarrow> Return sent
            | Return (sent, Some pa') \<Rightarrow>
                Return (sent @ errInfoChan
                  (if errors_Is e EOF \<or> errors_Is e ErrUnexpectedEOF then EOF
                   else Wrapped ''failed packet read'' e)))"
  using assms(1)
proof (induction pkts arbitrary: pa)
  case Nil
  then show ?case
    by (simp add: readPacketStream_loop_read_fails [OF assms(2)])
next
  case (Cons pkt pkts)
  then have len: "length pkt = 188" and rest: "list_all (\<lambda>pkt. length pkt = 188) pkts"
    by simp_all
  have read: "io_ReadFull \<lparr>remaining = pkt @ concat pkts @ rest, terminal = e\<rparr> 188 =
                (Inr pkt, \<lparr>remaining = concat pkts @ rest, terminal = e\<rparr>)"
    by (rule io_ReadFull_packet [OF len])
  have step: "readPacketStream_loop g d \<lparr>remaining = pkt @ concat pkts @ rest, terminal = e\<rparr>
                metadataPID pa =
              (case loop_body g d metadataPID pa pkt of
                 Panic p \<Rightarrow> Panic p
               | Return (sent, None) \<Rightarrow> Return sent
               | Return (sent, Some pa') \<Rightarrow>
                   (case readPacketStream_loop g d \<lparr>remaining = concat pkts @ rest, terminal = e\<rparr>
                           metadataPID pa' of
                      Panic p \<Rightarrow> Panic p
                    | Return rest \<Rightarrow> Return (sent @ rest)))"
    by (subst readPacketStream_loop.simps) (simp only: read prod.case sum.case)
  show ?case
    by (simp add: step Cons.IH [OF rest] split: go.splits prod.splits option.splits)
qed

lemma Read_range_infos:
  "Read_range meta (map (\<lambda>mi. \<lparr>Error = None, MetaInfo = Some mi\<rparr>) ms @ infoChan) =
     Read_range (meta @ map Some ms) infoChan"
  by (induction ms arbitrary: meta) simp_all

lemma Read_range_error:
  "Read_range meta (errInfoChan e) = (meta, if errors_Is e EOF then None else Some e)"
  by (simp add: errInfoChan_def)

text \<open>
  C7. The metadata stream is found, the input then holds full packets and less than
  one packet more, and the loop gets through the full packets without returning,
  sending the records \<open>ms\<close>. The next read fails: with \<open>EOF\<close> when nothing is left and
  the reader ends, with \<open>ErrUnexpectedEOF\<close> when part of a packet is left and the
  reader ends. For these two \<open>Read\<close> returns the records and no error; for any
  other error it returns the records and the error, wrapped.
\<close>

theorem read_failure_ends_extraction:
  assumes "getStreamPID d r = (Inr metadataPID, r')"
    and "remaining r' = concat pkts @ rest"
    and "list_all (\<lambda>pkt. length pkt = 188) pkts"
    and "length rest < 188"
    and "run_packets g d metadataPID new_PESAccumulator pkts =
           Return (map (\<lambda>mi. \<lparr>Error = None, MetaInfo = Some mi\<rparr>) ms, Some pa)"
  shows "\<exists>err. fst (io_ReadFull \<lparr>remaining = rest, terminal = terminal r'\<rparr> 188) = Inl err \<and>
           (terminal r' = EOF \<longrightarrow> err = (if rest = [] then EOF else ErrUnexpectedEOF)) \<and>
           Read g d r =
             Return (map Some ms,
                     if errors_Is err EOF \<or> errors_Is err ErrUnexpectedEOF then None
                     else Some (Wrapped ''failed packet read'' err))"
proof -
  let ?e = "terminal r'"
  let ?err = "if rest \<noteq> [] \<and> ?e = EOF then ErrUnexpectedEOF else ?e"
  let ?last = "if errors_Is ?e EOF \<or> errors_Is ?e ErrUnexpectedEOF then EOF
               else Wrapped ''failed packet read'' ?e"
  have r': "r' = \<lparr>remaining = concat pkts @ rest, terminal = ?e\<rparr>"
    using assms(2) by (cases r') simp
  have "readPacketStream_loop g d \<lparr>remaining = concat pkts @ rest, terminal = ?e\<rparr> metadataPID
          new_PESAccumulator =
        Return (map (\<lambda>mi. \<lparr>Error = None, MetaInfo = Some mi\<rparr>) ms @ errInfoChan ?last)"
    by (simp add: readPacketStream_loop_packets [OF assms(3,4)] assms(5))
  then have chan: "ReadStream g d r =
        Return (map (\<lambda>mi. \<lparr>Error = None, MetaInfo = Some mi\<rparr>) ms @ errInfoChan ?last)"
    using r' by (simp add: ReadStream_def assms(1) readPacketStream_def)
  have "Read g d r = Return (map Some ms, if errors_Is ?last EOF then None else Some ?last)"
    by (simp add: Read_def chan go_bind_Return Read_range_infos Read_range_error)
  moreover have "(if errors_Is ?last EOF then None else Some ?last) =
      (if errors_Is ?err EOF \<or> errors_Is ?err ErrUnexpectedEOF then None
       else Some (Wrapped ''failed packet read'' ?err))"
    by auto
  moreover have "fst (io_ReadFull \<lparr>remaining = rest, terminal = ?e\<rparr> 188) = Inl ?err"
    by (simp add: io_ReadFull_fails [OF assms(4)])
  moreover have "?e = EOF \<longrightarrow> ?err = (if rest = [] then EOF else ErrUnexpectedEOF)"
    by simp
  ultimately show ?thesis
    by (intro exI [of _ ?err]) (simp only: simp_thms)
qed

lemma example_packet_length: "length example_packet = 188"
  by (simp add: example_packet_def)

lemma example_header:
  "NewPESHeader example_gots (drop 4 example_packet) =
     Return (\<lparr>packetStartCodePrefix = 1, dataAlignment = False, streamId = 0xBD,
              pesPacketLength = 178, dataStartIndex = 14, ptsDtsIndicator = 2, pts = 90000,
              dts = 0, data = replicate 170 0x49\<rparr>, None)"
  by (simp add: run_header example_packet_def ExtractTime_def nth_append)

lemma example_run:
  "run_packets example_gots example_deps 256 new_PESAccumulator [example_packet] =
     Return ([\<lparr>Error = None,
               MetaInfo = Some \<lparr>PTS = 90000,
                 MetaData = [''TXXX'' \<mapsto> \<lparr>Prefix = ''PFX'', Value = ''payload''\<rparr>]\<rparr>\<rparr>],
             Some new_PESAccumulator)"
proof -
  have pid: "packet_PID example_gots example_packet = 256"
    by (simp add: example_gots_def example_packet_def)
  have hdr: "packet_PESHeader example_gots example_packet = Inr (drop 4 example_packet)"
    by (simp add: example_gots_def)
  have w: "Write example_gots new_PESAccumulator example_packet =
             Return (\<lparr>PESHeader = Some \<lparr>packetStartCodePrefix = 1, dataAlignment = False,
                        streamId = 0xBD, pesPacketLength = 178, dataStartIndex = 14,
                        ptsDtsIndicator = 2, pts = 90000, dts = 0, data = replicate 170 0x49\<rparr>,
                      packetSize = 170, Data = replicate 170 0x49\<rparr>, True, None)"
    by (simp add: Write_first [OF _ hdr example_header] new_PESAccumulator_def
        PESHeader_Data_def PacketSize_def)
  have body: "loop_body example_gots example_deps 256 new_PESAccumulator example_packet =
      Return ([\<lparr>Error = None,
               MetaInfo = Some \<lparr>PTS = 90000,
                 MetaData = [''TXXX'' \<mapsto> \<lparr>Prefix = ''PFX'', Value = ''payload''\<rparr>]\<rparr>\<rparr>],
              Some new_PESAccumulator)"
    unfolding loop_body_def parseID3_def
    by (simp only: pid w go_bind_Return example_deps_def)
       (simp add: PESHeader_PTS_def go_bind_Return fun_eq_iff parseValue_def NUL_def)
  show ?thesis
    by (simp add: body)
qed

theorem read_failure_ends_extraction_witness:
  "getStreamPID example_deps \<lparr>remaining = example_packet @ [0x47, 0x01], terminal = EOF\<rparr> =
     (Inr 256, \<lparr>remaining = example_packet @ [0x47, 0x01], terminal = EOF\<rparr>) \<and>
   list_all (\<lambda>pkt. length pkt = 188) [example_packet] \<and>
   run_packets example_gots example_deps 256 new_PESAccumulator [example_packet] =
     Return ([\<lparr>Error = None,
               MetaInfo = Some \<lparr>PTS = 90000,
                 MetaData = [''TXXX'' \<mapsto> \<lparr>Prefix = ''PFX'', Value = ''payload''\<rparr>]\<rparr>\<rparr>],
             Some new_PESAccumulator) \<and>
   Read example_gots example_deps \<lparr>remaining = example_packet @ [0x47, 0x01], terminal = EOF\<rparr> =
     Return ([Some \<lparr>PTS = 90000,
                MetaData = [''TXXX'' \<mapsto> \<lparr>Prefix = ''PFX'', Value = ''payload''\<rparr>]\<rparr>], None) \<and>
   Read example_gots example_deps \<lparr>remaining = example_packet, terminal = EOF\<rparr> =
     Return ([Some \<lparr>PTS = 90000,
                MetaData = [''TXXX'' \<mapsto> \<lparr>Prefix = ''PFX'', Value = ''payload''\<rparr>]\<rparr>], None) \<and>
   Read example_gots example_deps
       \<lparr>remaining = example_packet @ [0x47, 0x01], terminal = External ''connection reset''\<rparr> =
     Return ([Some \<lparr>PTS = 90000,
                MetaData = [''TXXX'' \<mapsto> \<lparr>Prefix = ''PFX'', Value = ''payload''\<rparr>]\<rparr>],
             Some (Wrapped ''failed packet read'' (External ''connection reset'')))"
proof -
  let ?mi = "\<lparr>PTS = 90000, MetaData = [''TXXX'' \<mapsto> \<lparr>Prefix = ''PFX'', Value = ''payload''\<rparr>]\<rparr>"
  have loc: "\<And>r. getStreamPID example_deps r = (Inr 256, r)"
    by (simp add: example_deps_def)
  have full: "list_all (\<lambda>pkt. length pkt = 188) [example_packet]"
    by (simp add: example_packet_length)
  have run: "run_packets example_gots example_deps 256 new_PESAccumulator [example_packet] =
      Return (map (\<lambda>mi. \<lparr>Error = None, MetaInfo = Some mi\<rparr>) [?mi], Some new_PESAccumulator)"
    by (simp only: example_run list.map)
  have short: "length [0x47, 0x01 :: u8] < 188" "length ([] :: u8 list) < 188"
    by simp_all
  note truncated = read_failure_ends_extraction [OF loc _ full short(1) run,
      of "\<lparr>remaining = example_packet @ [0x47, 0x01], terminal = EOF\<rparr>"]
  note exhausted = read_failure_ends_extraction [OF loc _ full short(2) run,
      of "\<lparr>remaining = example_packet, terminal = EOF\<rparr>"]
  note failed = read_failure_ends_extraction [OF loc _ full short(1) run,
      of "\<lparr>remaining = example_packet @ [0x47, 0x01], terminal = External ''connection reset''\<rparr>"]
  have t: "Read example_gots example_deps \<lparr>remaining = example_packet @ [0x47, 0x01], terminal = EOF\<rparr> =
             Return ([Some ?mi], None)"
    using truncated by (simp add: io_ReadFull_def)
  have e: "Read example_gots example_deps \<lparr>remaining = example_packet, terminal = EOF\<rparr> =
             Return ([Some ?mi], None)"
    using exhausted by (simp add: io_ReadFull_def)
  have f: "Read example_gots example_deps
               \<lparr>remaining = example_packet @ [0x47, 0x01], terminal = External ''connection reset''\<rparr> =
             Return ([Some ?mi], Some (Wrapped ''failed packet read'' (External ''connection reset'')))"
    using failed by (simp add: io_ReadFull_def)
  show ?thesis
    by (intro conjI) (rule loc full example_run t e f)+
qed

end
